theory Spec2Isabelle
  imports Complex_Main
begin

section \<open>Data model of the FlexModel network simulation\<close>

text \<open>
  The development embeds the class \<open>FlexModel\<close> of \<open>pyNTM/flex_model.py\<close>.
  Python numbers (capacities, bandwidths, traffic) are modelled as exact rationals;
  interface costs are integers. Objects that the Python code shares by reference
  (interfaces inside graph edges and paths) are represented by the value they have at
  the moment they are read, and are addressed in the interface collection by their
  identity key (node name, interface name) when they are mutated.
\<close>

record interface =
  int_name :: string
  cost :: int
  capacity :: rat
  node_object :: string
  remote_node_object :: string
  circuit_id :: string
  rsvp_enabled :: bool
  percent_reservable_bandwidth :: rat
  failed :: bool
  reserved_bandwidth :: rat
  traffic :: rat

text \<open>
  A node carries its name, its coordinates and the names of the SRLGs that it records
  as its memberships.
\<close>

record node =
  node_name :: string
  lat :: rat
  lon :: rat
  node_srlgs :: "string list"

text \<open>The identity key of an interface: the name of its node and its own name.\<close>

definition int_key :: "interface \<Rightarrow> string \<times> string" where
  "int_key i = (node_object i, int_name i)"

text \<open>
  Modelled from the spec: the property \<open>reservable_bandwidth\<close> of the class
  \<open>Interface\<close> (file \<open>interface.py\<close>, which is not part of the sources at hand):
  \<open>capacity * percent_reservable_bandwidth / 100 - reserved_bandwidth\<close>.
\<close>

definition reservable_bandwidth :: "interface \<Rightarrow> rat" where
  "reservable_bandwidth i =
     capacity i * percent_reservable_bandwidth i / 100 - reserved_bandwidth i"

subsection \<open>The multigraph handed to the graph library\<close>

text \<open>
  A \<open>networkx.MultiDiGraph\<close> is a set of vertices together with, for every ordered
  pair of vertices, the parallel edges between them in insertion order. The edge data
  is the dictionary \<open>{'cost', 'interface', 'circuit_id'}\<close> of the source.
\<close>

record edge =
  e_src :: string
  e_dst :: string
  e_cost :: int
  e_interface :: interface
  e_circuit_id :: string

record mdg =
  g_nodes :: "string list"
  g_edges :: "edge list"

definition empty_mdg :: mdg where
  "empty_mdg = \<lparr>g_nodes = [], g_edges = []\<rparr>"

definition add_node :: "string list \<Rightarrow> string \<Rightarrow> string list" where
  "add_node ns n = (if n \<in> set ns then ns else ns @ [n])"

text \<open>\<open>G.add_nodes_from\<close>: every name becomes a vertex, once.\<close>

definition add_nodes_from :: "mdg \<Rightarrow> string list \<Rightarrow> mdg" where
  "add_nodes_from G ns = G\<lparr>g_nodes := foldl add_node (g_nodes G) ns\<rparr>"

text \<open>\<open>G.add_edges_from\<close>: both endpoints of an edge become vertices, the edge is appended.\<close>

definition add_edge :: "mdg \<Rightarrow> edge \<Rightarrow> mdg" where
  "add_edge G e =
     \<lparr>g_nodes = add_node (add_node (g_nodes G) (e_src e)) (e_dst e),
      g_edges = g_edges G @ [e]\<rparr>"

definition add_edges_from :: "mdg \<Rightarrow> edge list \<Rightarrow> mdg" where
  "add_edges_from G es = foldl add_edge G es"

text \<open>\<open>G[u][v].values()\<close>: the data of the parallel edges from \<open>u\<close> to \<open>v\<close>.\<close>

definition edges_between :: "mdg \<Rightarrow> string \<Rightarrow> string \<Rightarrow> edge list" where
  "edges_between G u v = filter (\<lambda>e. e_src e = u \<and> e_dst e = v) (g_edges G)"

definition has_edge :: "mdg \<Rightarrow> string \<Rightarrow> string \<Rightarrow> bool" where
  "has_edge G u v = (edges_between G u v \<noteq> [])"

subsection \<open>The model\<close>

datatype bw_state = Bw rat | BwUnrouted

text \<open>
  The path of an LSP is the string \<open>'Unrouted'\<close> or a dictionary holding the interfaces
  of the path (references to interface objects, here their identity keys) and the cost.
\<close>

type_synonym int_ref = "string \<times> string"

record lsp_path =
  interfaces :: "int_ref list"
  baseline_path_cost :: int

datatype lsp_path_state = LspUnrouted | LspRouted lsp_path

record rsvp_lsp =
  lsp_name :: string
  source_node_object :: string
  dest_node_object :: string
  configured_setup_bandwidth :: "rat option"
  lsp_reserved_bandwidth :: bw_state
  setup_bandwidth :: rat
  path :: lsp_path_state

text \<open>
  The path of a demand is \<open>'Unrouted'\<close>, a list of LSPs (references, here the key
  source node name and LSP name) or a list of interface sequences.
\<close>

type_synonym lsp_ref = "string \<times> string"

definition lsp_key :: "rsvp_lsp \<Rightarrow> lsp_ref" where
  "lsp_key l = (source_node_object l, lsp_name l)"

datatype demand_path_state =
  DemandUnrouted | DemandLsps "lsp_ref list" | DemandPaths "int_ref list list"

record demand =
  demand_name :: string
  d_source_node_object :: string
  d_dest_node_object :: string
  d_traffic :: rat
  d_path :: demand_path_state

text \<open>
  A circuit is a pair of interface objects; an SRLG has a name and member nodes. The
  attribute \<open>in_ckt\<close> that circuit formation sets on the interface objects is kept as
  the table of the interfaces for which it is true.
\<close>

record circuit =
  interface_a :: int_ref
  interface_b :: int_ref

record srlg =
  srlg_name :: string
  srlg_node_objects :: "node list"

record model =
  interface_objects :: "interface list"
  node_objects :: "node list"
  demand_objects :: "demand list"
  rsvp_lsp_objects :: "rsvp_lsp list"
  circuit_objects :: "circuit list"
  srlg_objects :: "srlg list"
  in_ckt :: "int_ref list"
  parallel_lsp_groups :: "((string \<times> string) \<times> lsp_ref list) list"

section \<open>The topology graph builder\<close>

text \<open>The edge triple built for one interface in \<open>_make_weighted_network_graph_mdg\<close>.\<close>

definition edge_names :: "interface \<Rightarrow> edge" where
  "edge_names i =
     \<lparr>e_src = node_object i, e_dst = remote_node_object i,
      e_cost = cost i, e_interface = i, e_circuit_id = circuit_id i\<rparr>"

definition considered_interfaces :: "model \<Rightarrow> bool \<Rightarrow> rat \<Rightarrow> interface list" where
  "considered_interfaces M include_failed_circuits needed_bw =
     (if \<not> include_failed_circuits
      then filter (\<lambda>i. \<not> failed i \<and> reservable_bandwidth i \<ge> needed_bw) (interface_objects M)
      else filter (\<lambda>i. reservable_bandwidth i \<ge> needed_bw) (interface_objects M))"

definition make_weighted_network_graph_mdg :: "model \<Rightarrow> bool \<Rightarrow> rat \<Rightarrow> bool \<Rightarrow> mdg" where
  "make_weighted_network_graph_mdg M include_failed_circuits needed_bw rsvp_required =
     (let considered = considered_interfaces M include_failed_circuits needed_bw;
          es = (if rsvp_required
                then map edge_names (filter rsvp_enabled considered)
                else map edge_names considered);
          G = add_edges_from empty_mdg es
      in add_nodes_from G (map node_name (node_objects M)))"

text \<open>The edge inclusion rule as the specification words it.\<close>

definition edge_eligible :: "bool \<Rightarrow> rat \<Rightarrow> bool \<Rightarrow> interface \<Rightarrow> bool" where
  "edge_eligible include_failed needed_bw rsvp_required i =
     ((include_failed \<or> \<not> failed i) \<and> reservable_bandwidth i \<ge> needed_bw
      \<and> (\<not> rsvp_required \<or> rsvp_enabled i))"

subsection \<open>A small example network\<close>

definition mk_int :: "string \<Rightarrow> string \<Rightarrow> string \<Rightarrow> int \<Rightarrow> rat \<Rightarrow> string \<Rightarrow> interface" where
  "mk_int n a b c cap cid =
     \<lparr>int_name = n, cost = c, capacity = cap, node_object = a, remote_node_object = b,
      circuit_id = cid, rsvp_enabled = True, percent_reservable_bandwidth = 100,
      failed = False, reserved_bandwidth = 0, traffic = 0\<rparr>"

definition mk_node :: "string \<Rightarrow> node" where
  "mk_node n = \<lparr>node_name = n, lat = 0, lon = 0, node_srlgs = []\<rparr>"

definition ex_ints :: "interface list" where
  "ex_ints =
     [mk_int ''A-to-B'' ''A'' ''B'' 10 100 ''1'',
      mk_int ''B-to-A'' ''B'' ''A'' 10 100 ''1'',
      mk_int ''A-to-B_2'' ''A'' ''B'' 10 50 ''2'',
      mk_int ''B-to-A_2'' ''B'' ''A'' 10 50 ''2'']"

definition ex_model :: model where
  "ex_model =
     \<lparr>interface_objects = ex_ints,
      node_objects = [mk_node ''A'', mk_node ''B'', mk_node ''Z''],
      demand_objects = [], rsvp_lsp_objects = [], circuit_objects = [], srlg_objects = [],
      in_ckt = [], parallel_lsp_groups = []\<rparr>"

section \<open>The path enumerator\<close>

text \<open>
  The exceptions that the modelled code can raise: Python's own \<open>IndexError\<close>,
  \<open>KeyError\<close>, \<open>ValueError\<close>, the graph library's \<open>NodeNotFound\<close> and any other
  exception of the graph library.
\<close>

datatype py_error = IndexError | KeyError | ValueError | NxNodeNotFound | NxError

text \<open>
  One iteration of the inner loop of \<open>_get_all_paths_mdg\<close>: \<open>G[current_hop][next_hop]\<close>
  raises \<open>KeyError\<close> when there is no edge between the two vertices; otherwise the
  interfaces of the edges of minimum cost are collected.
\<close>

definition hop_interfaces :: "mdg \<Rightarrow> string \<Rightarrow> string \<Rightarrow> py_error + interface list" where
  "hop_interfaces G current_hop next_hop =
     (let values_source_hop = edges_between G current_hop next_hop
      in if values_source_hop = [] then Inl KeyError
         else (let min_weight = Min (set (map e_cost values_source_hop));
                   ecmp_links = filter (\<lambda>d. e_cost d = min_weight) values_source_hop
               in Inr (map e_interface ecmp_links)))"

fun path_hops :: "mdg \<Rightarrow> string \<Rightarrow> string list \<Rightarrow> py_error + interface list list" where
  "path_hops G current_hop [] = Inr []"
| "path_hops G current_hop (next_hop # rest) =
     (case hop_interfaces G current_hop next_hop of
        Inl e \<Rightarrow> Inl e
      | Inr this_hop \<Rightarrow>
          (case path_hops G next_hop rest of
             Inl e \<Rightarrow> Inl e
           | Inr this_path \<Rightarrow> Inr (this_hop # this_path)))"

fun get_all_paths_mdg :: "mdg \<Rightarrow> string list list \<Rightarrow> py_error + interface list list list" where
  "get_all_paths_mdg G [] = Inr []"
| "get_all_paths_mdg G ([] # nx_sp) = Inl IndexError"
| "get_all_paths_mdg G ((current_hop # hops) # nx_sp) =
     (case path_hops G current_hop hops of
        Inl e \<Rightarrow> Inl e
      | Inr this_path \<Rightarrow>
          (case get_all_paths_mdg G nx_sp of
             Inl e \<Rightarrow> Inl e
           | Inr all_paths \<Rightarrow> Inr (this_path # all_paths)))"

text \<open>
  \<open>itertools.product(*pools)\<close>, as the Python documentation defines it: the result
  starts as \<open>[[]]\<close> and each pool extends every partial tuple by each of its elements.
\<close>

definition itertools_product :: "'a list list \<Rightarrow> 'a list list" where
  "itertools_product pools =
     foldl (\<lambda>result pool. concat (map (\<lambda>x. map (\<lambda>y. x @ [y]) pool) result)) [[]] pools"

definition normalize_multidigraph_paths :: "'a list list list \<Rightarrow> 'a list list" where
  "normalize_multidigraph_paths path_info =
     foldl (\<lambda>path_list path. path_list @ itertools_product path) [] path_info"

text \<open>
  The enumeration in the words of the specification: the local ECMP set of a pair of
  vertices holds the interfaces of the edges of minimum cost between them, and the
  result is the flattened list of the Cartesian products of these sets along each
  node-hop sequence. A node-hop sequence of \<open>G\<close> is a non-empty list of vertices whose
  adjacent pairs are joined by an edge of \<open>G\<close>.
\<close>

definition ecmp_set :: "mdg \<Rightarrow> string \<Rightarrow> string \<Rightarrow> interface list" where
  "ecmp_set G u v =
     map e_interface
       (filter (\<lambda>e. \<forall>e' \<in> set (edges_between G u v). e_cost e \<le> e_cost e') (edges_between G u v))"

definition node_hops :: "string list \<Rightarrow> (string \<times> string) list" where
  "node_hops p = zip p (tl p)"

definition node_hop_sequence :: "mdg \<Rightarrow> string list \<Rightarrow> bool" where
  "node_hop_sequence G p = (p \<noteq> [] \<and> list_all (\<lambda>(u, v). has_edge G u v) (node_hops p))"

definition cartesian_enumeration :: "mdg \<Rightarrow> string list list \<Rightarrow> interface list list" where
  "cartesian_enumeration G nx_sp =
     concat (map (\<lambda>p. product_lists (map (\<lambda>(u, v). ecmp_set G u v) (node_hops p))) nx_sp)"

definition ex_graph :: mdg where
  "ex_graph = make_weighted_network_graph_mdg ex_model False 0 False"

section \<open>The shortest-path search of the graph library\<close>

text \<open>
  \<open>networkx.all_shortest_paths(G, source, target, weight='cost')\<close> is not part of the
  package. Its answer is a parameter of the model: the exception \<open>NetworkXNoPath\<close>,
  the exception \<open>NodeNotFound\<close>, or the list of node-hop sequences that it yields.
\<close>

datatype nx_answer = NetworkXNoPath | NodeNotFound | NxPaths "string list list"

type_synonym nx_search = "mdg \<Rightarrow> string \<Rightarrow> string \<Rightarrow> nx_answer"

text \<open>
  What the model expects of an answer for the graph \<open>G\<close>: the exception for an unknown
  vertex is raised only for a source that is not a vertex, and every path returned is a
  node-hop sequence of \<open>G\<close> without repeated vertices that runs from the source to the
  target.
\<close>

definition nx_path_ok :: "mdg \<Rightarrow> string \<Rightarrow> string \<Rightarrow> string list \<Rightarrow> bool" where
  "nx_path_ok G s d p = (node_hop_sequence G p \<and> distinct p \<and> hd p = s \<and> last p = d)"

definition nx_answer_ok :: "mdg \<Rightarrow> string \<Rightarrow> string \<Rightarrow> nx_answer \<Rightarrow> bool" where
  "nx_answer_ok G s d a =
     (case a of
        NetworkXNoPath \<Rightarrow> True
      | NodeNotFound \<Rightarrow> s \<notin> set (g_nodes G)
      | NxPaths ps \<Rightarrow> list_all (nx_path_ok G s d) ps)"

definition nx_search_ok :: "nx_search \<Rightarrow> bool" where
  "nx_search_ok nx = (\<forall>G s d. nx_answer_ok G s d (nx G s d))"

text \<open>
  A search that finds the paths of at most one hop. On a network in which no two
  vertices are joined through a third one these are all the shortest paths.
\<close>

definition nx_one_hop :: nx_search where
  "nx_one_hop G s d =
     (if s \<notin> set (g_nodes G) then NodeNotFound
      else if s = d then NxPaths [[s]]
      else if has_edge G s d then NxPaths [[s, d]]
      else NetworkXNoPath)"

section \<open>The LSP placer\<close>

text \<open>
  \<open>min([interface.reservable_bandwidth for interface in path])\<close> raises
  \<open>ValueError\<close> on a path without interfaces.
\<close>

definition path_min_reservable_bandwidth :: "interface list \<Rightarrow> py_error + rat" where
  "path_min_reservable_bandwidth p =
     (if p = [] then Inl ValueError else Inr (Min (set (map reservable_bandwidth p))))"

fun candidate_path_info_w_reservable_bw ::
  "rat \<Rightarrow> interface list list \<Rightarrow> py_error + interface list list" where
  "candidate_path_info_w_reservable_bw bw [] = Inr []"
| "candidate_path_info_w_reservable_bw bw (p # candidate_path_info) =
     (case path_min_reservable_bandwidth p of
        Inl e \<Rightarrow> Inl e
      | Inr m \<Rightarrow>
          (case candidate_path_info_w_reservable_bw bw candidate_path_info of
             Inl e \<Rightarrow> Inl e
           | Inr cs \<Rightarrow> Inr (if m \<ge> bw then p # cs else cs)))"

text \<open>
  \<open>random.choice\<close> picks one element of a non-empty list. The generator is a stream of
  draws and a position in it; a choice consumes one draw.
\<close>

type_synonym rng = "nat \<Rightarrow> nat"

definition random_choice :: "rng \<Rightarrow> nat \<Rightarrow> 'a list \<Rightarrow> 'a \<times> nat" where
  "random_choice draws k xs = (xs ! (draws k mod length xs), Suc k)"

text \<open>The choice of the new path among the candidates with enough reservable bandwidth.\<close>

definition lowest_hop_count_paths :: "'a list list \<Rightarrow> 'a list list" where
  "lowest_hop_count_paths cands =
     (let fewest_hops = Min (set (map length cands))
      in filter (\<lambda>p. length p = fewest_hops) cands)"

definition new_path :: "rng \<Rightarrow> nat \<Rightarrow> 'a list list \<Rightarrow> 'a list \<times> nat" where
  "new_path draws k cands =
     (if length cands > 1
      then (if length (lowest_hop_count_paths cands) > 1
            then random_choice draws k (lowest_hop_count_paths cands)
            else (lowest_hop_count_paths cands ! 0, k))
      else (cands ! 0, k))"

text \<open>
  Modelled from the spec: \<open>_add_lsp_path_data\<close> (defined in \<open>master_model.py\<close>, which
  is not part of the sources at hand) records the path on the LSP as the interface
  sequence and the sum of the interface costs.
\<close>

definition add_lsp_path_data :: "rsvp_lsp \<Rightarrow> interface list \<Rightarrow> rsvp_lsp" where
  "add_lsp_path_data lsp p =
     lsp\<lparr>path := LspRouted \<lparr>interfaces = map int_key p,
                                 baseline_path_cost = sum_list (map cost p)\<rparr>\<rparr>"

text \<open>
  \<open>interface.reserved_bandwidth += lsp.reserved_bandwidth\<close> for each interface of the
  path: the interface object that a reference denotes is updated in the collection.
\<close>

definition add_reserved_bandwidth :: "int_ref \<Rightarrow> rat \<Rightarrow> interface list \<Rightarrow> interface list" where
  "add_reserved_bandwidth r bw ints =
     map (\<lambda>i. if int_key i = r then i\<lparr>reserved_bandwidth := reserved_bandwidth i + bw\<rparr> else i) ints"

definition consume_reserved_bandwidth :: "int_ref list \<Rightarrow> rat \<Rightarrow> interface list \<Rightarrow> interface list" where
  "consume_reserved_bandwidth refs bw ints = foldl (\<lambda>acc r. add_reserved_bandwidth r bw acc) ints refs"

definition mark_unrouted :: "rsvp_lsp \<Rightarrow> rsvp_lsp" where
  "mark_unrouted lsp = lsp\<lparr>path := LspUnrouted, lsp_reserved_bandwidth := BwUnrouted\<rparr>"

text \<open>
  The body of the loop of \<open>_determine_lsp_state_info\<close> for one LSP. It returns the
  model with the reservations of the LSP consumed, the position of the random
  generator and the LSP with its new state.
\<close>

definition lsp_bandwidth :: "rsvp_lsp \<Rightarrow> rat \<Rightarrow> rat" where
  "lsp_bandwidth lsp traff_on_each_group_lsp =
     (case configured_setup_bandwidth lsp of
        None \<Rightarrow> traff_on_each_group_lsp
      | Some c \<Rightarrow> c)"

definition lsp_graph :: "model \<Rightarrow> rsvp_lsp \<Rightarrow> rat \<Rightarrow> mdg" where
  "lsp_graph M lsp traff = make_weighted_network_graph_mdg M False (lsp_bandwidth lsp traff) True"

definition determine_lsp_state ::
  "nx_search \<Rightarrow> rng \<Rightarrow> rat \<Rightarrow> model \<Rightarrow> nat \<Rightarrow> rsvp_lsp \<Rightarrow> py_error + (model \<times> nat \<times> rsvp_lsp)" where
  "determine_lsp_state nx draws traff_on_each_group_lsp M k lsp0 =
     (let bw = lsp_bandwidth lsp0 traff_on_each_group_lsp;
          lsp = lsp0\<lparr>lsp_reserved_bandwidth := Bw bw, setup_bandwidth := bw\<rparr>;
          G = make_weighted_network_graph_mdg M False (setup_bandwidth lsp) True
      in case nx G (source_node_object lsp) (dest_node_object lsp) of
           NodeNotFound \<Rightarrow> Inl NxNodeNotFound
         | NetworkXNoPath \<Rightarrow> Inr (M, k, mark_unrouted lsp)
         | NxPaths nx_sp \<Rightarrow>
             (case get_all_paths_mdg G nx_sp of
                Inl e \<Rightarrow> Inl e
              | Inr all_paths \<Rightarrow>
                  (case candidate_path_info_w_reservable_bw (setup_bandwidth lsp)
                          (normalize_multidigraph_paths all_paths) of
                     Inl e \<Rightarrow> Inl e
                   | Inr cands \<Rightarrow>
                       if length cands = 0 then Inr (M, k, mark_unrouted lsp)
                       else (let (p, k') = new_path draws k cands;
                                 lsp' = add_lsp_path_data lsp p
                             in Inr (M\<lparr>interface_objects :=
                                         consume_reserved_bandwidth (map int_key p) bw
                                           (interface_objects M)\<rparr>,
                                     k', lsp')))))"

fun determine_lsp_state_info ::
  "nx_search \<Rightarrow> rng \<Rightarrow> rat \<Rightarrow> model \<Rightarrow> nat \<Rightarrow> rsvp_lsp list
     \<Rightarrow> py_error + (model \<times> nat \<times> rsvp_lsp list)" where
  "determine_lsp_state_info nx draws traff M k [] = Inr (M, k, [])"
| "determine_lsp_state_info nx draws traff M k (lsp # lsps) =
     (case determine_lsp_state nx draws traff M k lsp of
        Inl e \<Rightarrow> Inl e
      | Inr (M', k', lsp') \<Rightarrow>
          (case determine_lsp_state_info nx draws traff M' k' lsps of
             Inl e \<Rightarrow> Inl e
           | Inr (M'', k'', lsps') \<Rightarrow> Inr (M'', k'', lsp' # lsps')))"

text \<open>
  The notions of the specification: the concrete interface sequences enumerated for
  an answer of the search, those among them with sufficient reservable bandwidth, and
  the bound on the reserved bandwidth of an interface.
\<close>

definition enumerated_paths :: "mdg \<Rightarrow> nx_answer \<Rightarrow> interface list list" where
  "enumerated_paths G a = (case a of NxPaths ps \<Rightarrow> cartesian_enumeration G ps | _ \<Rightarrow> [])"

definition sufficient_bw :: "rat \<Rightarrow> interface list \<Rightarrow> bool" where
  "sufficient_bw bw p = (p \<noteq> [] \<and> Min (set (map reservable_bandwidth p)) \<ge> bw)"

definition lsp_answer :: "nx_search \<Rightarrow> model \<Rightarrow> rsvp_lsp \<Rightarrow> rat \<Rightarrow> nx_answer" where
  "lsp_answer nx M lsp traff =
     nx (lsp_graph M lsp traff) (source_node_object lsp) (dest_node_object lsp)"

definition eligible_paths :: "mdg \<Rightarrow> nx_answer \<Rightarrow> rat \<Rightarrow> interface list list" where
  "eligible_paths G a bw = filter (sufficient_bw bw) (enumerated_paths G a)"

definition fewest_hop_paths :: "'a list list \<Rightarrow> 'a list list" where
  "fewest_hop_paths cands = filter (\<lambda>p. \<forall>q \<in> set cands. length p \<le> length q) cands"

definition reserved_within_bound :: "interface \<Rightarrow> bool" where
  "reserved_within_bound i =
     (reserved_bandwidth i \<le> capacity i * percent_reservable_bandwidth i / 100)"

definition mk_lsp :: "string \<Rightarrow> string \<Rightarrow> string \<Rightarrow> rat option \<Rightarrow> rsvp_lsp" where
  "mk_lsp n a b c =
     \<lparr>lsp_name = n, source_node_object = a, dest_node_object = b,
      configured_setup_bandwidth = c, lsp_reserved_bandwidth = BwUnrouted,
      setup_bandwidth = 0, path = LspUnrouted\<rparr>"

definition ex_lsp :: "rat \<Rightarrow> rsvp_lsp" where
  "ex_lsp bw = mk_lsp ''lsp_a_b'' ''A'' ''B'' (Some bw)"



section \<open>The demand router\<close>

text \<open>
  The LSPs that can carry a demand in \<open>_route_demands\<close>: those with the source and the
  destination of the demand whose path is not \<open>'Unrouted'\<close>.
\<close>

definition lsps_for_demand :: "rsvp_lsp list \<Rightarrow> demand \<Rightarrow> rsvp_lsp list" where
  "lsps_for_demand lsps dmd =
     filter (\<lambda>lsp. source_node_object lsp = d_source_node_object dmd
                 \<and> dest_node_object lsp = d_dest_node_object dmd
                 \<and> path lsp \<noteq> LspUnrouted) lsps"

text \<open>The body of the loop of \<open>_route_demands\<close> for one demand.\<close>

definition route_demand :: "nx_search \<Rightarrow> mdg \<Rightarrow> rsvp_lsp list \<Rightarrow> demand \<Rightarrow> py_error + demand" where
  "route_demand nx G lsps dmd =
     (let carriers = lsps_for_demand lsps dmd
      in if carriers \<noteq> [] then Inr (dmd\<lparr>d_path := DemandLsps (map lsp_key carriers)\<rparr>)
         else (case nx G (d_source_node_object dmd) (d_dest_node_object dmd) of
                 NodeNotFound \<Rightarrow> Inl NxNodeNotFound
               | NetworkXNoPath \<Rightarrow> Inr (dmd\<lparr>d_path := DemandUnrouted\<rparr>)
               | NxPaths nx_sp \<Rightarrow>
                   (case get_all_paths_mdg G nx_sp of
                      Inl e \<Rightarrow> Inl e
                    | Inr all_paths \<Rightarrow>
                        Inr (dmd\<lparr>d_path := DemandPaths
                               (map (map int_key) (normalize_multidigraph_paths all_paths))\<rparr>))))"

fun route_demands_loop ::
  "nx_search \<Rightarrow> mdg \<Rightarrow> rsvp_lsp list \<Rightarrow> demand list \<Rightarrow> py_error + demand list" where
  "route_demands_loop nx G lsps [] = Inr []"
| "route_demands_loop nx G lsps (dmd # dmds) =
     (case route_demand nx G lsps dmd of
        Inl e \<Rightarrow> Inl e
      | Inr dmd' \<Rightarrow>
          (case route_demands_loop nx G lsps dmds of
             Inl e \<Rightarrow> Inl e
           | Inr dmds' \<Rightarrow> Inr (dmd' # dmds')))"

text \<open>
  \<open>_route_demands(self, model)\<close>: the graph is built from \<open>self\<close>, the demands and the
  LSPs are those of \<open>model\<close>. The result is the list of the demands with their new
  paths. The aggregation of the traffic onto the interfaces that follows the loop
  (\<open>_update_interface_utilization\<close>) does not change the path of a demand.
\<close>

definition demand_graph :: "model \<Rightarrow> mdg" where
  "demand_graph self = make_weighted_network_graph_mdg self False 0 False"

definition route_demands :: "nx_search \<Rightarrow> model \<Rightarrow> model \<Rightarrow> py_error + demand list" where
  "route_demands nx self model =
     route_demands_loop nx (demand_graph self) (rsvp_lsp_objects model) (demand_objects model)"




definition mk_demand :: "string \<Rightarrow> string \<Rightarrow> string \<Rightarrow> rat \<Rightarrow> demand" where
  "mk_demand n a b t =
     \<lparr>demand_name = n, d_source_node_object = a, d_dest_node_object = b, d_traffic = t,
      d_path = DemandUnrouted\<rparr>"


section \<open>Path queries\<close>

text \<open>
  \<open>get_interface_object_from_nodes\<close>: the interfaces between two nodes, narrowed by
  the circuit id when one is given. With a circuit id and more than one match the
  function returns (it does not raise) an exception object.
\<close>

datatype lookup_result = Interfaces "interface list" | ReturnedException

definition get_interface_object_from_nodes ::
  "model \<Rightarrow> string \<Rightarrow> string \<Rightarrow> string option \<Rightarrow> lookup_result" where
  "get_interface_object_from_nodes M local_node_name remote_node_name cid =
     (case cid of
        None \<Rightarrow>
          Interfaces (filter (\<lambda>i. node_object i = local_node_name
                                 \<and> remote_node_object i = remote_node_name) (interface_objects M))
      | Some c \<Rightarrow>
          (let interface_list =
                 filter (\<lambda>i. node_object i = local_node_name
                            \<and> remote_node_object i = remote_node_name
                            \<and> circuit_id i = c) (interface_objects M)
           in if length interface_list > 1 then ReturnedException
              else Interfaces interface_list))"

text \<open>\<open>list.index\<close>: the position of the first occurrence.\<close>

fun index_of :: "'a list \<Rightarrow> 'a \<Rightarrow> nat" where
  "index_of [] x = 0"
| "index_of (y # ys) x = (if x = y then 0 else Suc (index_of ys x))"

text \<open>
  \<open>_convert_nx_path_to_model_path\<close>: for every hop that has a successor in the path,
  the interfaces to the successor with enough reservable bandwidth.
\<close>

definition hop_model_path :: "model \<Rightarrow> string list \<Rightarrow> rat \<Rightarrow> string \<Rightarrow> interface list list" where
  "hop_model_path M nx_graph_path needed_bw hop =
     (let current_hop_index = index_of nx_graph_path hop;
          next_hop_index = current_hop_index + 1
      in if next_hop_index < length nx_graph_path
         then (case get_interface_object_from_nodes M hop (nx_graph_path ! next_hop_index) None of
                 Interfaces l \<Rightarrow> [filter (\<lambda>i. reservable_bandwidth i \<ge> needed_bw) l]
               | ReturnedException \<Rightarrow> [])
         else [])"

definition convert_nx_path_to_model_path ::
  "model \<Rightarrow> string list \<Rightarrow> rat \<Rightarrow> interface list list" where
  "convert_nx_path_to_model_path M nx_graph_path needed_bw =
     concat (map (hop_model_path M nx_graph_path needed_bw) nx_graph_path)"

text \<open>
  The path functions of the graph library return generators. A call either raises at
  once, or gives a generator that yields some paths and then stops or raises.
  \<open>shortest_path_length\<close> returns a cost or raises.
\<close>

datatype nx_call = Raises py_error | Generator "string list list" bool

type_synonym nx_paths_call = "mdg \<Rightarrow> string \<Rightarrow> string \<Rightarrow> nx_call"

type_synonym nx_length_call = "mdg \<Rightarrow> string \<Rightarrow> string \<Rightarrow> int option"

text \<open>
  The value under the key \<open>'path'\<close> of the returned dictionary: the list of converted
  paths (each a list of hops, each hop a list of interfaces) when the function returns
  from its exception handler, the normalized list otherwise. Both are the empty Python
  list when they hold no path.
\<close>

datatype path_value = Converted "interface list list list" | Normalized "interface list list"

record path_dict =
  pd_cost :: "int option"
  pd_path :: path_value

text \<open>
  The loop of \<open>get_shortest_path\<close> inside \<open>try\<close>: \<open>Inl\<close> is the dictionary at the moment
  an exception is caught, \<open>Inr\<close> the dictionary when the generator is exhausted.
\<close>

fun shortest_path_loop ::
  "model \<Rightarrow> rat \<Rightarrow> int option \<Rightarrow> string list list \<Rightarrow> interface list list list \<Rightarrow> int option
     \<Rightarrow> (interface list list list \<times> int option) + (interface list list list \<times> int option)" where
  "shortest_path_loop M needed_bw len [] converted c = Inr (converted, c)"
| "shortest_path_loop M needed_bw len (p # ps) converted c =
     (let converted' = converted @ [convert_nx_path_to_model_path M p needed_bw]
      in case len of
           None \<Rightarrow> Inl (converted', c)
         | Some l \<Rightarrow> shortest_path_loop M needed_bw len ps converted' (Some l))"

definition get_shortest_path ::
  "nx_paths_call \<Rightarrow> nx_length_call \<Rightarrow> model \<Rightarrow> string \<Rightarrow> string \<Rightarrow> rat \<Rightarrow> py_error + path_dict" where
  "get_shortest_path all_shortest_paths shortest_path_length M source_node_name dest_node_name needed_bw =
     (let G = make_weighted_network_graph_mdg M False needed_bw False
      in case all_shortest_paths G source_node_name dest_node_name of
           Raises e \<Rightarrow> Inl e
         | Generator yields raises \<Rightarrow>
             (case shortest_path_loop M needed_bw
                     (shortest_path_length G source_node_name dest_node_name) yields [] None of
                Inl (converted, c) \<Rightarrow> Inr \<lparr>pd_cost = c, pd_path = Converted converted\<rparr>
              | Inr (converted, c) \<Rightarrow>
                  if raises then Inr \<lparr>pd_cost = c, pd_path = Converted converted\<rparr>
                  else Inr \<lparr>pd_cost = c,
                            pd_path = Normalized (normalize_multidigraph_paths converted)\<rparr>))"

text \<open>
  \<open>get_all_paths_reservable_bw\<close>: the generator of \<open>all_simple_paths\<close> is consumed
  (and its duplicates are removed) before the \<open>try\<close>, so an exception of the generator
  is not caught; the conversion of the paths inside the \<open>try\<close> raises nothing. The
  dictionary has the key \<open>'path'\<close> only.
\<close>

definition get_all_paths_reservable_bw ::
  "nx_paths_call \<Rightarrow> model \<Rightarrow> string \<Rightarrow> string \<Rightarrow> bool \<Rightarrow> rat \<Rightarrow> py_error + path_dict" where
  "get_all_paths_reservable_bw all_simple_paths M source_node_name dest_node_name
       include_failed_circuits needed_bw =
     (let G = make_weighted_network_graph_mdg M include_failed_circuits needed_bw False
      in case all_simple_paths G source_node_name dest_node_name of
           Raises e \<Rightarrow> Inl e
         | Generator yields raises \<Rightarrow>
             if raises then Inl NxError
             else (let digraph_unique_paths = remdups yields;
                       converted =
                         map (\<lambda>p. convert_nx_path_to_model_path M p needed_bw) digraph_unique_paths
                   in Inr \<lparr>pd_cost = None,
                           pd_path = Normalized (normalize_multidigraph_paths converted)\<rparr>))"

text \<open>
  The answers of the library for two vertices of the graph without a path between
  them: the generator of \<open>all_shortest_paths\<close> raises \<open>NetworkXNoPath\<close> when its first
  path is asked for, the generator of \<open>all_simple_paths\<close> yields nothing.
\<close>

definition no_shortest_path :: nx_call where
  "no_shortest_path = Generator [] True"

definition no_simple_path :: nx_call where
  "no_simple_path = Generator [] False"

section \<open>Loading the interfaces table of a model file\<close>

text \<open>
  \<open>str.split()\<close> without arguments: the maximal runs of characters that are not white
  space.
\<close>

definition is_space :: "char \<Rightarrow> bool" where
  "is_space c =
     (c \<in> set [CHR '' '', CHR 0x09, CHR 0x0A, CHR 0x0B, CHR 0x0C, CHR 0x0D,
                CHR 0x1C, CHR 0x1D, CHR 0x1E, CHR 0x1F])"

fun split_acc :: "string \<Rightarrow> string \<Rightarrow> string list" where
  "split_acc cur [] = (if cur = [] then [] else [cur])"
| "split_acc cur (c # cs) =
     (if is_space c then (if cur = [] then split_acc [] cs else cur # split_acc [] cs)
      else split_acc (cur @ [c]) cs)"

definition py_split :: "string \<Rightarrow> string list" where
  "py_split s = split_acc [] s"

text \<open>
  The exceptions of \<open>load_model_file\<close>: the \<open>ModelException\<close> of the circuit id check
  with the list of the offending circuit ids and their numbers of appearances, the
  \<open>ModelException\<close> for a line of the interfaces table with fewer than six columns
  (with the line and its index), and Python's \<open>ValueError\<close>.
\<close>

datatype load_error =
  CircuitIdException "(string \<times> nat) list"
| LineException string nat
| LoadValueError

text \<open>
  \<open>lines[int_info_begin_index:int_info_end_index]\<close> with the begin index 2. The end
  index is the result of \<open>find_end_index\<close> (module \<open>utilities\<close>, not part of the sources
  at hand): an index or \<open>None\<close>.
\<close>

definition interface_lines :: "string list \<Rightarrow> nat option \<Rightarrow> string list" where
  "interface_lines lines int_info_end_index =
     (case int_info_end_index of
        None \<Rightarrow> drop 2 lines
      | Some e \<Rightarrow> take (e - 2) (drop 2 lines))"

text \<open>The sixth column of every line that has one (\<open>IndexError\<close> is passed over).\<close>

definition circuit_id_list :: "string list \<Rightarrow> string list" where
  "circuit_id_list ls =
     concat (map (\<lambda>line. if length (py_split line) > 5 then [py_split line ! 5] else []) ls)"

definition bad_circuit_ids :: "string list \<Rightarrow> (string \<times> nat) list" where
  "bad_circuit_ids cids =
     map (\<lambda>item. (item, count_list cids item))
       (filter (\<lambda>item. count_list cids item \<noteq> 2) (remdups cids))"

text \<open>
  \<open>_extract_interface_data_and_implied_nodes\<close>. The conversions \<open>int\<close> and \<open>float\<close> of
  Python are parameters that return \<open>None\<close> where Python raises \<open>ValueError\<close>. Unpacking
  more than eight columns into eight names raises \<open>ValueError\<close>.
  Modelled from the spec: the constructor of \<open>Interface\<close> (file \<open>interface.py\<close>, not part
  of the sources at hand) builds an interface that is not failed and has no reserved
  bandwidth and no traffic.
\<close>

definition rsvp_enabled_bool :: "string \<Rightarrow> bool" where
  "rsvp_enabled_bool s = (s \<in> set [''T'', ''True'', ''true''])"

definition new_interface ::
  "(string \<Rightarrow> int option) \<Rightarrow> (string \<Rightarrow> rat option) \<Rightarrow> string list \<Rightarrow> bool \<Rightarrow> string
     \<Rightarrow> load_error + interface" where
  "new_interface py_int py_float ts rsvp pct =
     (case py_int (ts ! 3) of
        None \<Rightarrow> Inl LoadValueError
      | Some c \<Rightarrow>
          (case py_int (ts ! 4) of
             None \<Rightarrow> Inl LoadValueError
           | Some cap \<Rightarrow>
               (case py_float pct of
                  None \<Rightarrow> Inl LoadValueError
                | Some p \<Rightarrow>
                    Inr \<lparr>int_name = ts ! 2, cost = c, capacity = of_int cap,
                         node_object = ts ! 0, remote_node_object = ts ! 1,
                         circuit_id = ts ! 5, rsvp_enabled = rsvp,
                         percent_reservable_bandwidth = p, failed = False,
                         reserved_bandwidth = 0, traffic = 0\<rparr>)))"

definition interface_of_line ::
  "(string \<Rightarrow> int option) \<Rightarrow> (string \<Rightarrow> rat option) \<Rightarrow> string list \<Rightarrow> string
     \<Rightarrow> load_error + interface" where
  "interface_of_line py_int py_float lines interface_line =
     (let ts = py_split interface_line
      in if length ts = 6 then new_interface py_int py_float ts True ''100''
         else if length ts = 7 then new_interface py_int py_float ts (rsvp_enabled_bool (ts ! 6)) ''100''
         else if length ts \<ge> 8
              then (if length ts > 8 then Inl LoadValueError
                    else new_interface py_int py_float ts (rsvp_enabled_bool (ts ! 6)) (ts ! 7))
         else Inl (LineException interface_line (index_of lines interface_line)))"

definition add_implied_node :: "string \<Rightarrow> node list \<Rightarrow> node list" where
  "add_implied_node n node_set =
     (if n \<notin> set (map node_name node_set) then node_set @ [\<lparr>node_name = n, lat = 0, lon = 0, node_srlgs = []\<rparr>]
      else node_set)"

fun extract_loop ::
  "(string \<Rightarrow> int option) \<Rightarrow> (string \<Rightarrow> rat option) \<Rightarrow> string list \<Rightarrow> string list
     \<Rightarrow> interface list \<Rightarrow> node list \<Rightarrow> load_error + (interface list \<times> node list)" where
  "extract_loop py_int py_float lines [] interface_set node_set = Inr (interface_set, node_set)"
| "extract_loop py_int py_float lines (interface_line # rest) interface_set node_set =
     (case interface_of_line py_int py_float lines interface_line of
        Inl e \<Rightarrow> Inl e
      | Inr i \<Rightarrow>
          extract_loop py_int py_float lines rest
            (if int_key i \<notin> set (map int_key interface_set) then interface_set @ [i]
             else interface_set)
            (add_implied_node (remote_node_object i) (add_implied_node (node_object i) node_set)))"

definition extract_interface_data_and_implied_nodes ::
  "(string \<Rightarrow> int option) \<Rightarrow> (string \<Rightarrow> rat option) \<Rightarrow> nat option \<Rightarrow> string list
     \<Rightarrow> load_error + (interface list \<times> node list)" where
  "extract_interface_data_and_implied_nodes py_int py_float int_info_end_index lines =
     extract_loop py_int py_float lines (interface_lines lines int_info_end_index) [] []"

text \<open>
  \<open>load_model_file\<close> up to the interfaces and the nodes that they imply: the check of
  the circuit ids, then the extraction. The tables of the nodes, the demands and the
  LSPs are read afterwards by functions that are not part of the sources at hand.
\<close>

definition load_model_file_interfaces ::
  "(string \<Rightarrow> int option) \<Rightarrow> (string \<Rightarrow> rat option) \<Rightarrow> nat option \<Rightarrow> string list
     \<Rightarrow> load_error + (interface list \<times> node list)" where
  "load_model_file_interfaces py_int py_float int_info_end_index lines =
     (let bad = bad_circuit_ids (circuit_id_list (interface_lines lines int_info_end_index))
      in if length bad \<noteq> 0 then Inl (CircuitIdException bad)
         else extract_interface_data_and_implied_nodes py_int py_float int_info_end_index lines)"

text \<open>The offending circuit ids in the words of the specification.\<close>

definition offending_circuit_ids :: "string list \<Rightarrow> (string \<times> nat) set" where
  "offending_circuit_ids cids = {(c, count_list cids c) |c. c \<in> set cids \<and> count_list cids c \<noteq> 2}"

text \<open>A conversion that reads decimal digits, and two small files.\<close>

fun digits_value :: "nat \<Rightarrow> string \<Rightarrow> nat option" where
  "digits_value acc [] = Some acc"
| "digits_value acc (c # cs) =
     (if c \<in> set ''0123456789''
      then digits_value (10 * acc + index_of ''0123456789'' c) cs
      else None)"

definition ex_int :: "string \<Rightarrow> int option" where
  "ex_int s = (if s = [] then None else map_option int (digits_value 0 s))"

definition ex_float :: "string \<Rightarrow> rat option" where
  "ex_float s = (if s = [] then None else map_option of_nat (digits_value 0 s))"

definition ex_short_file :: "string list" where
  "ex_short_file =
     [''INTERFACES_TABLE'',
      ''node_object_name remote_node_object_name name cost capacity circuit_id'',
      ''A B A-to-B'']"

definition ex_odd_file :: "string list" where
  "ex_odd_file =
     [''INTERFACES_TABLE'',
      ''node_object_name remote_node_object_name name cost capacity circuit_id'',
      ''A B A-to-B 20 120 1'',
      ''B A B-to-A 20 120 1'',
      ''A B A-to-B_2 20 150 2'']"

section \<open>The validator\<close>

text \<open>
  The entries that \<open>validate_model\<close> appends to \<open>error_data\<close>, and the
  \<open>ModelException\<close>s of the validator: the two that \<open>_make_circuits_multidigraph\<close>
  raises itself and the aggregate one that \<open>validate_model\<close> raises at its end.
\<close>

datatype validation_failure =
  IntsWithNoRemoteInt "edge list"
| IntResBwTooHigh "int_ref list"
| IntResBwSumError "int_ref list"
| NonUniqueInterfacesPerNode
| CircuitsWithMismatchedInterfaceCapacity "circuit list"
| SrlgErrors "(string \<times> string list) list"
| DuplicateNodeNames nat nat

datatype model_exception =
  NoMatchingInterfaceObject string string string
| InterfacesNotMatched "edge list"
| ValidationFailed "validation_failure list"

text \<open>
  The subscript \<open>[0]\<close> on the result of \<open>get_interface_object_from_nodes\<close>: an empty
  list gives \<open>IndexError\<close>, a returned exception object gives \<open>TypeError\<close>; both are
  caught and replaced by a \<open>ModelException\<close>.
\<close>

definition first_interface :: "lookup_result \<Rightarrow> interface option" where
  "first_interface r =
     (case r of
        Interfaces [] \<Rightarrow> None
      | Interfaces (i # _) \<Rightarrow> Some i
      | ReturnedException \<Rightarrow> None)"

text \<open>
  The loop of \<open>_make_circuits_multidigraph\<close> over the edges that have a reverse edge.
  It carries the table of the interfaces marked \<open>in_ckt\<close> and the circuits made so far.
\<close>

fun circuits_loop ::
  "model \<Rightarrow> edge list \<Rightarrow> int_ref list \<Rightarrow> circuit list
     \<Rightarrow> model_exception + (int_ref list \<times> circuit list)" where
  "circuits_loop M [] marked circuits = Inr (marked, circuits)"
| "circuits_loop M (e # es) marked circuits =
     (case first_interface
             (get_interface_object_from_nodes M (e_src e) (e_dst e) (Some (e_circuit_id e))) of
        None \<Rightarrow> Inl (NoMatchingInterfaceObject (e_src e) (e_dst e) (e_circuit_id e))
      | Some int1 \<Rightarrow>
          (case first_interface
                  (get_interface_object_from_nodes M (e_dst e) (e_src e) (Some (e_circuit_id e))) of
             None \<Rightarrow> Inl (NoMatchingInterfaceObject (e_dst e) (e_src e) (e_circuit_id e))
           | Some int2 \<Rightarrow>
               if int_key int1 \<notin> set marked \<and> int_key int2 \<notin> set marked
               then circuits_loop M es (marked @ [int_key int1, int_key int2])
                      (circuits @ [\<lparr>interface_a = int_key int1, interface_b = int_key int2\<rparr>])
               else circuits_loop M es marked circuits))"

text \<open>
  \<open>_make_circuits_multidigraph(return_exception, include_failed_circuits)\<close>. The result
  is the model with the new \<open>in_ckt\<close> table, and either \<open>None\<close> (the circuits have been
  stored in the model) or the dictionary data of the edges without a reverse edge.
\<close>

definition make_circuits_multidigraph ::
  "model \<Rightarrow> bool \<Rightarrow> bool \<Rightarrow> model_exception + (model \<times> edge list option)" where
  "make_circuits_multidigraph M return_exception include_failed_circuits =
     (let G = make_weighted_network_graph_mdg M include_failed_circuits 0 False;
          graph_interfaces = filter (\<lambda>e. has_edge G (e_dst e) (e_src e)) (g_edges G)
      in case circuits_loop M graph_interfaces [] [] of
           Inl x \<Rightarrow> Inl x
         | Inr (marked, circuits) \<Rightarrow>
             (let exception_ints_not_in_ckt =
                    filter (\<lambda>e. \<not> has_edge G (e_dst e) (e_src e)) (g_edges G)
              in if length exception_ints_not_in_ckt > 0
                 then (if return_exception then Inl (InterfacesNotMatched exception_ints_not_in_ckt)
                       else Inr (M\<lparr>in_ckt := marked\<rparr>, Some exception_ints_not_in_ckt))
                 else Inr (M\<lparr>in_ckt := marked, circuit_objects := circuits\<rparr>, None)))"

text \<open>
  Modelled from the spec: \<open>_make_int_info_dict\<close> and \<open>_reserved_bw_error_checks\<close> (defined
  in \<open>master_model.py\<close>, not part of the sources at hand) collect the interfaces whose
  reserved bandwidth exceeds \<open>capacity * percent_reservable_bandwidth / 100\<close> and those
  whose reserved bandwidth differs from the sum of the reservations of the LSPs that
  record the interface in their path.
\<close>

definition lsp_reservation_on :: "int_ref \<Rightarrow> rsvp_lsp \<Rightarrow> rat" where
  "lsp_reservation_on r lsp =
     (case path lsp of
        LspUnrouted \<Rightarrow> 0
      | LspRouted p \<Rightarrow>
          (if r \<in> set (interfaces p)
           then (case lsp_reserved_bandwidth lsp of Bw x \<Rightarrow> x | BwUnrouted \<Rightarrow> 0)
           else 0))"

definition int_res_bw_too_high :: "model \<Rightarrow> interface list" where
  "int_res_bw_too_high M = filter (\<lambda>i. \<not> reserved_within_bound i) (interface_objects M)"

definition int_res_bw_sum_error :: "model \<Rightarrow> interface list" where
  "int_res_bw_sum_error M =
     filter (\<lambda>i. reserved_bandwidth i
                  \<noteq> sum_list (map (lsp_reservation_on (int_key i)) (rsvp_lsp_objects M)))
       (interface_objects M)"

text \<open>
  Modelled from the spec: \<open>_unique_interface_per_node\<close> (defined in \<open>master_model.py\<close>,
  not part of the sources at hand) is true when no node has two interfaces with the
  same name.
\<close>

definition unique_interface_per_node :: "model \<Rightarrow> bool" where
  "unique_interface_per_node M = distinct (map int_key (interface_objects M))"

text \<open>
  Modelled from the spec: \<open>_validate_circuit_interface_capacity\<close> (defined in
  \<open>master_model.py\<close>, not part of the sources at hand) records a circuit whose two
  interfaces differ in capacity or in failed state.
\<close>

definition interface_of_ref :: "model \<Rightarrow> int_ref \<Rightarrow> interface option" where
  "interface_of_ref M r = find (\<lambda>i. int_key i = r) (interface_objects M)"

definition circuit_mismatched :: "model \<Rightarrow> circuit \<Rightarrow> bool" where
  "circuit_mismatched M ckt =
     (case (interface_of_ref M (interface_a ckt), interface_of_ref M (interface_b ckt)) of
        (Some a, Some b) \<Rightarrow> capacity a \<noteq> capacity b \<or> failed a \<noteq> failed b
      | _ \<Rightarrow> False)"

text \<open>
  The SRLG check of \<open>validate_model\<close>. The dictionary \<open>srlg_errors\<close> is an association
  list; for a node name that is not yet a key the handler of \<open>KeyError\<close> stores an empty
  list.
\<close>

definition srlg_error_entry ::
  "(string \<times> string list) list \<Rightarrow> string \<Rightarrow> string \<Rightarrow> (string \<times> string list) list" where
  "srlg_error_entry srlg_errors n s =
     (if n \<in> set (map fst srlg_errors)
      then map (\<lambda>(k, v). if k = n then (k, v @ [s]) else (k, v)) srlg_errors
      else srlg_errors @ [(n, [])])"

definition srlg_errors_of :: "srlg \<Rightarrow> (string \<times> string list) list \<Rightarrow> (string \<times> string list) list" where
  "srlg_errors_of s srlg_errors =
     foldl (\<lambda>acc n. srlg_error_entry acc (node_name n) (srlg_name s)) srlg_errors
       (filter (\<lambda>n. srlg_name s \<notin> set (node_srlgs n)) (srlg_node_objects s))"

definition srlg_errors :: "model \<Rightarrow> (string \<times> string list) list" where
  "srlg_errors M = foldl (\<lambda>acc s. srlg_errors_of s acc) [] (srlg_objects M)"

text \<open>
  \<open>validate_model\<close>. Circuit formation runs first, with \<open>return_exception=True\<close>; the
  other checks follow and their failures are appended to \<open>error_data\<close> in the order of
  the source.
\<close>

definition validate_model :: "model \<Rightarrow> model_exception + model" where
  "validate_model M =
     (case make_circuits_multidigraph M True True of
        Inl x \<Rightarrow> Inl x
      | Inr (M1, circuits) \<Rightarrow>
          (let too_high = int_res_bw_too_high M1;
               sum_error = int_res_bw_sum_error M1;
               mismatched = filter (circuit_mismatched M1) (circuit_objects M1);
               srlg_errs = srlg_errors M1;
               node_names = remdups (map node_name (node_objects M1));
               error_data =
                 (case circuits of Some d \<Rightarrow> [IntsWithNoRemoteInt d] | None \<Rightarrow> [])
                 @ (if length too_high > 0 then [IntResBwTooHigh (map int_key too_high)] else [])
                 @ (if length sum_error > 0 then [IntResBwSumError (map int_key sum_error)] else [])
                 @ (if \<not> unique_interface_per_node M1 then [NonUniqueInterfacesPerNode] else [])
                 @ (if length mismatched > 0
                    then [CircuitsWithMismatchedInterfaceCapacity mismatched] else [])
                 @ (if length srlg_errs > 0 then [SrlgErrors srlg_errs] else [])
                 @ (if length (node_objects M1) \<noteq> length node_names
                    then [DuplicateNodeNames (length (node_objects M1)) (length node_names)]
                    else [])
           in if length error_data > 0 then Inl (ValidationFailed error_data) else Inr M1))"

text \<open>
  A model with one interface that has no counterpart and with two nodes of the same
  name, and the same model without the interface.
\<close>

definition ex_orphan_model :: model where
  "ex_orphan_model =
     \<lparr>interface_objects = [mk_int ''A-to-B'' ''A'' ''B'' 10 100 ''1''],
      node_objects = [mk_node ''A'', mk_node ''B'', (mk_node ''A'')\<lparr>lat := 1\<rparr>],
      demand_objects = [], rsvp_lsp_objects = [], circuit_objects = [], srlg_objects = [],
      in_ckt = [], parallel_lsp_groups = []\<rparr>"

definition ex_duplicate_model :: model where
  "ex_duplicate_model = ex_orphan_model\<lparr>interface_objects := []\<rparr>"

section \<open>The simulation driver\<close>

text \<open>
  Modelled from the spec: \<open>_route_lsps\<close> (defined in \<open>master_model.py\<close>, not part of
  the sources at hand) groups the LSPs by source and destination node; for each group
  it sums the traffic of the demands with these endpoints, divides the sum by the number
  of LSPs of the group, and places the LSPs of the group with that share by
  \<open>_determine_lsp_state_info\<close>. The groups are formed before any LSP is placed and
  are processed one after the other, in the order in which their first LSP appears.
\<close>

definition lsp_group_key :: "rsvp_lsp \<Rightarrow> string \<times> string" where
  "lsp_group_key l = (source_node_object l, dest_node_object l)"

definition parallel_lsp_group_keys :: "rsvp_lsp list \<Rightarrow> (string \<times> string) list" where
  "parallel_lsp_group_keys lsps = remdups (map lsp_group_key lsps)"

definition lsp_group :: "rsvp_lsp list \<Rightarrow> string \<times> string \<Rightarrow> rsvp_lsp list" where
  "lsp_group lsps g = filter (\<lambda>l. lsp_group_key l = g) lsps"

definition traffic_in_demand_group :: "demand list \<Rightarrow> string \<times> string \<Rightarrow> rat" where
  "traffic_in_demand_group dmds g =
     sum_list (map d_traffic
       (filter (\<lambda>d. (d_source_node_object d, d_dest_node_object d) = g) dmds))"

fun route_lsp_groups ::
  "nx_search \<Rightarrow> rng \<Rightarrow> demand list \<Rightarrow> model \<Rightarrow> nat
     \<Rightarrow> ((string \<times> string) \<times> rsvp_lsp list) list
     \<Rightarrow> py_error + (model \<times> nat \<times> ((string \<times> string) \<times> rsvp_lsp list) list)" where
  "route_lsp_groups nx draws dmds M k [] = Inr (M, k, [])"
| "route_lsp_groups nx draws dmds M k ((g, lsps) # groups) =
     (case determine_lsp_state_info nx draws
             (traffic_in_demand_group dmds g / of_nat (length lsps)) M k lsps of
        Inl e \<Rightarrow> Inl e
      | Inr (M', k', lsps') \<Rightarrow>
          (case route_lsp_groups nx draws dmds M' k' groups of
             Inl e \<Rightarrow> Inl e
           | Inr (M'', k'', outs) \<Rightarrow> Inr (M'', k'', (g, lsps') # outs)))"

text \<open>
  The LSP objects of a group are mutated in place: in the collection of the LSPs, the
  LSPs of the group take, in order, the states that the placer has computed for them.
\<close>

fun replace_group :: "string \<times> string \<Rightarrow> rsvp_lsp list \<Rightarrow> rsvp_lsp list \<Rightarrow> rsvp_lsp list" where
  "replace_group g [] new = []"
| "replace_group g (l # lsps) new =
     (if lsp_group_key l = g
      then (case new of
              [] \<Rightarrow> l # replace_group g lsps []
            | n # ns \<Rightarrow> n # replace_group g lsps ns)
      else l # replace_group g lsps new)"

definition replace_groups ::
  "rsvp_lsp list \<Rightarrow> ((string \<times> string) \<times> rsvp_lsp list) list \<Rightarrow> rsvp_lsp list" where
  "replace_groups lsps outs = foldl (\<lambda>cur (g, new). replace_group g cur new) lsps outs"

definition route_lsps :: "nx_search \<Rightarrow> rng \<Rightarrow> model \<Rightarrow> nat \<Rightarrow> py_error + (model \<times> nat)" where
  "route_lsps nx draws M k =
     (let lsps = rsvp_lsp_objects M;
          groups = map (\<lambda>g. (g, lsp_group lsps g)) (parallel_lsp_group_keys lsps)
      in case route_lsp_groups nx draws (demand_objects M) M k groups of
           Inl e \<Rightarrow> Inl e
         | Inr (M', k', outs) \<Rightarrow> Inr (M'\<lparr>rsvp_lsp_objects := replace_groups lsps outs\<rparr>, k'))"

text \<open>
  Modelled from the spec: \<open>_update_interface_utilization\<close> (defined in
  \<open>master_model.py\<close>, not part of the sources at hand). A demand with \<open>k\<close> interface
  sequences adds its traffic divided by \<open>k\<close> to every interface of every sequence; a
  demand that rides \<open>k\<close> LSPs adds its traffic divided by \<open>k\<close> to every interface of
  the path of each of these LSPs.
\<close>

definition add_traffic :: "int_ref \<Rightarrow> rat \<Rightarrow> interface list \<Rightarrow> interface list" where
  "add_traffic r x ints =
     map (\<lambda>i. if int_key i = r then i\<lparr>traffic := traffic i + x\<rparr> else i) ints"

definition add_traffic_on_path :: "int_ref list \<Rightarrow> rat \<Rightarrow> interface list \<Rightarrow> interface list" where
  "add_traffic_on_path refs x ints = foldl (\<lambda>acc r. add_traffic r x acc) ints refs"

definition lsp_path_interfaces :: "rsvp_lsp list \<Rightarrow> lsp_ref \<Rightarrow> int_ref list" where
  "lsp_path_interfaces lsps r =
     (case find (\<lambda>l. lsp_key l = r) lsps of
        None \<Rightarrow> []
      | Some l \<Rightarrow> (case path l of LspUnrouted \<Rightarrow> [] | LspRouted p \<Rightarrow> interfaces p))"

definition demand_carrier_paths :: "rsvp_lsp list \<Rightarrow> demand \<Rightarrow> int_ref list list" where
  "demand_carrier_paths lsps dmd =
     (case d_path dmd of
        DemandUnrouted \<Rightarrow> []
      | DemandPaths ps \<Rightarrow> ps
      | DemandLsps refs \<Rightarrow> map (lsp_path_interfaces lsps) refs)"

definition add_demand_traffic :: "rsvp_lsp list \<Rightarrow> demand \<Rightarrow> interface list \<Rightarrow> interface list" where
  "add_demand_traffic lsps dmd ints =
     (let ps = demand_carrier_paths lsps dmd
      in foldl (\<lambda>acc p. add_traffic_on_path p (d_traffic dmd / of_nat (length ps)) acc) ints ps)"

definition update_interface_utilization :: "model \<Rightarrow> model" where
  "update_interface_utilization M =
     M\<lparr>interface_objects :=
         foldl (\<lambda>acc dmd. add_demand_traffic (rsvp_lsp_objects M) dmd acc)
           (interface_objects M) (demand_objects M)\<rparr>"

text \<open>
  \<open>update_simulation\<close>. The model of the non-failed interfaces that it builds shares the
  demand and LSP objects with \<open>self\<close>; \<open>_route_demands\<close> reads only these from it, at
  the time when the LSPs have been placed.
\<close>

datatype sim_error = PythonError py_error | ModelError model_exception

definition reset_interface :: "interface \<Rightarrow> interface" where
  "reset_interface i = i\<lparr>reserved_bandwidth := 0, traffic := 0\<rparr>"

definition non_failed_interfaces_model :: "model \<Rightarrow> model" where
  "non_failed_interfaces_model M =
     (let non_failed_interfaces = filter (\<lambda>i. \<not> failed i) (interface_objects M);
          available =
            concat (map (\<lambda>i. [node_object i, remote_node_object i]) non_failed_interfaces)
      in \<lparr>interface_objects = non_failed_interfaces,
          node_objects = filter (\<lambda>n. node_name n \<in> set available) (node_objects M),
          demand_objects = demand_objects M,
          rsvp_lsp_objects = rsvp_lsp_objects M,
          circuit_objects = [], srlg_objects = [], in_ckt = [], parallel_lsp_groups = []\<rparr>)"

definition reset_simulation :: "model \<Rightarrow> model" where
  "reset_simulation M =
     M\<lparr>parallel_lsp_groups := [],
       interface_objects := map reset_interface (interface_objects M),
       rsvp_lsp_objects := map (\<lambda>l. l\<lparr>path := LspUnrouted\<rparr>) (rsvp_lsp_objects M),
       demand_objects := map (\<lambda>d. d\<lparr>d_path := DemandUnrouted\<rparr>) (demand_objects M)\<rparr>"

definition update_simulation :: "nx_search \<Rightarrow> rng \<Rightarrow> nat \<Rightarrow> model \<Rightarrow> sim_error + (model \<times> nat)" where
  "update_simulation nx draws k self =
     (case route_lsps nx draws (reset_simulation self) k of
        Inl e \<Rightarrow> Inl (PythonError e)
      | Inr (self1, k') \<Rightarrow>
          (case route_demands nx self1 (non_failed_interfaces_model self1) of
             Inl e \<Rightarrow> Inl (PythonError e)
           | Inr dmds \<Rightarrow>
               (case validate_model
                       (update_interface_utilization (self1\<lparr>demand_objects := dmds\<rparr>)) of
                  Inl x \<Rightarrow> Inl (ModelError x)
                | Inr self2 \<Rightarrow> Inr (self2, k'))))"

text \<open>
  The decision that the placer takes for an LSP with given endpoints and bandwidth:
  an exception, no path (\<open>None\<close>), or the chosen path with the new position of the
  random generator.
\<close>

definition placement ::
  "nx_search \<Rightarrow> rng \<Rightarrow> model \<Rightarrow> nat \<Rightarrow> string \<Rightarrow> string \<Rightarrow> rat
     \<Rightarrow> py_error + (interface list \<times> nat) option" where
  "placement nx draws M k s d bw =
     (let G = make_weighted_network_graph_mdg M False bw True
      in case nx G s d of
           NodeNotFound \<Rightarrow> Inl NxNodeNotFound
         | NetworkXNoPath \<Rightarrow> Inr None
         | NxPaths nx_sp \<Rightarrow>
             (case get_all_paths_mdg G nx_sp of
                Inl e \<Rightarrow> Inl e
              | Inr all_paths \<Rightarrow>
                  (case candidate_path_info_w_reservable_bw bw
                          (normalize_multidigraph_paths all_paths) of
                     Inl e \<Rightarrow> Inl e
                   | Inr cands \<Rightarrow>
                       if length cands = 0 then Inr None
                       else Inr (Some (new_path draws k cands)))))"

text \<open>The state that the loop body of the placer produces from a decision.\<close>

definition placed ::
  "rat \<Rightarrow> model \<Rightarrow> nat \<Rightarrow> rsvp_lsp \<Rightarrow> (interface list \<times> nat) option
     \<Rightarrow> model \<times> nat \<times> rsvp_lsp" where
  "placed bw M k l d =
     (case d of
        None \<Rightarrow> (M, k, mark_unrouted (l\<lparr>lsp_reserved_bandwidth := Bw bw, setup_bandwidth := bw\<rparr>))
      | Some (p, k') \<Rightarrow>
          (M\<lparr>interface_objects := consume_reserved_bandwidth (map int_key p) bw (interface_objects M)\<rparr>,
           k', add_lsp_path_data (l\<lparr>lsp_reserved_bandwidth := Bw bw, setup_bandwidth := bw\<rparr>) p))"

text \<open>
  A model with other LSP objects, circuits and \<open>in_ckt\<close> marks.
\<close>

definition frame :: "rsvp_lsp list \<Rightarrow> circuit list \<Rightarrow> int_ref list \<Rightarrow> model \<Rightarrow> model" where
  "frame L c s M = M\<lparr>rsvp_lsp_objects := L, circuit_objects := c, in_ckt := s\<rparr>"

definition framed ::
  "rsvp_lsp list \<Rightarrow> circuit list \<Rightarrow> int_ref list \<Rightarrow> model \<times> nat \<times> 'a
     \<Rightarrow> model \<times> nat \<times> 'a" where
  "framed L c s r = (frame L c s (fst r), snd r)"

definition lsp_static :: "rsvp_lsp \<Rightarrow> rsvp_lsp" where
  "lsp_static l = l\<lparr>lsp_reserved_bandwidth := BwUnrouted, setup_bandwidth := 0, path := LspUnrouted\<rparr>"

text \<open>
  The states computed for the groups fit a collection of LSPs when the LSPs of every
  group keep their declarative part.
\<close>

definition outs_ok :: "rsvp_lsp list \<Rightarrow> ((string \<times> string) \<times> rsvp_lsp list) list \<Rightarrow> bool" where
  "outs_ok lsps outs =
     list_all (\<lambda>out. map lsp_static (snd out) = map lsp_static (lsp_group lsps (fst out))) outs"

definition with_circuits :: "circuit list \<Rightarrow> int_ref list \<Rightarrow> model \<times> nat \<Rightarrow> model \<times> nat" where
  "with_circuits c s r = ((fst r)\<lparr>circuit_objects := c, in_ckt := s\<rparr>, snd r)"

text \<open>
  The declarative part of a model: what remains when the counters of the interfaces,
  the paths of the demands and the path and the bandwidths of the LSPs are blanked.
  Circuits, \<open>in_ckt\<close> marks and the group cache are derived state as well.
\<close>

definition declared ::
  "model \<Rightarrow> interface list \<times> node list \<times> demand list \<times> rsvp_lsp list \<times> srlg list" where
  "declared M =
     (map reset_interface (interface_objects M), node_objects M,
      map (\<lambda>d. d\<lparr>d_path := DemandUnrouted\<rparr>) (demand_objects M),
      map lsp_static (rsvp_lsp_objects M), srlg_objects M)"

text \<open>
  An example: the two circuits between A and B, an LSP from A to B with a configured
  bandwidth of 60, a demand of 60 from A to B and a demand of 5 from B to A.
\<close>

definition ex_sim_model :: model where
  "ex_sim_model =
     ex_model\<lparr>rsvp_lsp_objects := [ex_lsp 60],
              demand_objects := [mk_demand ''dmd_a_b'' ''A'' ''B'' 60,
                                 mk_demand ''dmd_b_a'' ''B'' ''A'' 5]\<rparr>"

section \<open>Properties of the graph builder\<close>

lemma set_foldl_add_node: "set (foldl add_node ns xs) = set ns \<union> set xs"
  by (induction xs arbitrary: ns) (auto simp: add_node_def)

lemma g_edges_foldl_add_edge: "g_edges (foldl add_edge G es) = g_edges G @ es"
  by (induction es arbitrary: G) (simp_all add: add_edge_def)

lemma g_edges_add_edges_from: "g_edges (add_edges_from G es) = g_edges G @ es"
  by (simp add: add_edges_from_def g_edges_foldl_add_edge)

lemma g_edges_add_nodes_from: "g_edges (add_nodes_from G ns) = g_edges G"
  by (simp add: add_nodes_from_def)

lemma g_nodes_add_nodes_from: "set (g_nodes (add_nodes_from G ns)) = set (g_nodes G) \<union> set ns"
  by (simp add: add_nodes_from_def set_foldl_add_node)

lemma g_edges_make_graph:
  "g_edges (make_weighted_network_graph_mdg M incl bw rsvp) =
     map edge_names (filter (edge_eligible incl bw rsvp) (interface_objects M))"
proof -
  have "(if rsvp then filter rsvp_enabled (considered_interfaces M incl bw)
         else considered_interfaces M incl bw)
        = filter (edge_eligible incl bw rsvp) (interface_objects M)"
    by (auto simp: considered_interfaces_def edge_eligible_def intro: filter_cong)
  then show ?thesis
    by (auto simp: make_weighted_network_graph_mdg_def Let_def g_edges_add_nodes_from
        g_edges_add_edges_from empty_mdg_def)
qed

lemma edge_names_inj: "edge_names i = edge_names j \<Longrightarrow> i = j"
proof -
  assume "edge_names i = edge_names j"
  then have "e_interface (edge_names i) = e_interface (edge_names j)" by simp
  then show "i = j" by (simp add: edge_names_def)
qed

text \<open>
  Claim C3. For every model and every parameter triple, the graph has exactly one edge
  \<open>node \<rightarrow> remote_node\<close> for each interface that passes the inclusion rule (in the
  iteration order of the interfaces) and none for any other interface, and every node
  name of the model is a vertex, whether or not it has an edge.
\<close>

theorem graph_builder_edges_and_vertices:
  "g_edges (make_weighted_network_graph_mdg M incl bw rsvp)
     = map edge_names (filter (edge_eligible incl bw rsvp) (interface_objects M))
   \<and> (\<forall>i \<in> set (interface_objects M).
        (edge_names i \<in> set (g_edges (make_weighted_network_graph_mdg M incl bw rsvp)))
          = edge_eligible incl bw rsvp i)
   \<and> (\<forall>e \<in> set (g_edges (make_weighted_network_graph_mdg M incl bw rsvp)).
        e_src e = node_object (e_interface e) \<and> e_dst e = remote_node_object (e_interface e))
   \<and> (\<forall>n \<in> set (node_objects M).
        node_name n \<in> set (g_nodes (make_weighted_network_graph_mdg M incl bw rsvp)))"
proof -
  let ?G = "make_weighted_network_graph_mdg M incl bw rsvp"
  have e: "g_edges ?G = map edge_names (filter (edge_eligible incl bw rsvp) (interface_objects M))"
    by (rule g_edges_make_graph)
  have m: "\<forall>i \<in> set (interface_objects M). (edge_names i \<in> set (g_edges ?G)) = edge_eligible incl bw rsvp i"
    using edge_names_inj by (auto simp: e)
  have s: "\<forall>e \<in> set (g_edges ?G). e_src e = node_object (e_interface e)
            \<and> e_dst e = remote_node_object (e_interface e)"
    by (auto simp: e edge_names_def)
  have n: "\<forall>n \<in> set (node_objects M). node_name n \<in> set (g_nodes ?G)"
    by (simp add: make_weighted_network_graph_mdg_def Let_def g_nodes_add_nodes_from)
  from e m s n show ?thesis by blast
qed

theorem graph_builder_edges_and_vertices_witness:
  "g_edges (make_weighted_network_graph_mdg ex_model False 60 True)
     = [edge_names (mk_int ''A-to-B'' ''A'' ''B'' 10 100 ''1''),
        edge_names (mk_int ''B-to-A'' ''B'' ''A'' 10 100 ''1'')]
   \<and> ''Z'' \<in> set (g_nodes (make_weighted_network_graph_mdg ex_model False 60 True))"
proof -
  note t = graph_builder_edges_and_vertices [of ex_model False 60 True]
  have e: "g_edges (make_weighted_network_graph_mdg ex_model False 60 True)
           = map edge_names (filter (edge_eligible False 60 True) (interface_objects ex_model))"
    using t by (rule conjunct1)
  have n: "\<forall>n \<in> set (node_objects ex_model).
             node_name n \<in> set (g_nodes (make_weighted_network_graph_mdg ex_model False 60 True))"
    using t by (elim conjE)
  have z: "mk_node ''Z'' \<in> set (node_objects ex_model)"
    by (simp add: ex_model_def)
  have nz: "node_name (mk_node ''Z'') = ''Z''"
    by (simp add: mk_node_def)
  have f: "filter (edge_eligible False 60 True) (interface_objects ex_model)
           = [mk_int ''A-to-B'' ''A'' ''B'' 10 100 ''1'', mk_int ''B-to-A'' ''B'' ''A'' 10 100 ''1'']"
    by (simp add: ex_model_def ex_ints_def edge_eligible_def mk_int_def reservable_bandwidth_def)
  have "''Z'' \<in> set (g_nodes (make_weighted_network_graph_mdg ex_model False 60 True))"
    using n z nz by (metis)
  moreover have "g_edges (make_weighted_network_graph_mdg ex_model False 60 True)
     = [edge_names (mk_int ''A-to-B'' ''A'' ''B'' 10 100 ''1''),
        edge_names (mk_int ''B-to-A'' ''B'' ''A'' 10 100 ''1'')]"
    by (simp only: e f list.map)
  ultimately show ?thesis by (rule conjI [rotated])
qed

section \<open>Properties of the path enumerator\<close>

lemma append_snoc_fun: "(@) (a @ [x]) = (\<lambda>p. a @ x # p)"
  by (rule ext) simp

lemma append_Nil_fun: "(@) [] = (\<lambda>p. p)"
  by (rule ext) simp

lemma product_step_one:
  "concat (map (\<lambda>b. map ((@) b) P) (map (\<lambda>y. a @ [y]) pool))
   = map ((@) a) (concat (map (\<lambda>x. map ((#) x) P) pool))"
  by (induction pool) (simp_all add: append_snoc_fun comp_def)

lemma product_step:
  "concat (map (\<lambda>b. map ((@) b) P) (concat (map (\<lambda>x. map (\<lambda>y. x @ [y]) pool) acc)))
   = concat (map (\<lambda>a. map ((@) a) (concat (map (\<lambda>x. map ((#) x) P) pool))) acc)"
  by (induction acc) (simp_all add: product_step_one del: map_map)

lemma foldl_product_acc:
  "foldl (\<lambda>result pool. concat (map (\<lambda>x. map (\<lambda>y. x @ [y]) pool) result)) acc pools
   = concat (map (\<lambda>a. map ((@) a) (product_lists pools)) acc)"
proof (induction pools arbitrary: acc)
  case Nil
  then show ?case by (induction acc) simp_all
next
  case (Cons pool pools)
  show ?case by (simp add: Cons.IH product_step)
qed

lemma itertools_product_eq: "itertools_product pools = product_lists pools"
  by (simp add: itertools_product_def foldl_product_acc append_Nil_fun)

lemma foldl_append_acc:
  "foldl (\<lambda>path_list path. path_list @ f path) acc xs = acc @ concat (map f xs)"
  by (induction xs arbitrary: acc) simp_all

lemma normalize_eq: "normalize_multidigraph_paths path_info = concat (map product_lists path_info)"
  by (simp add: normalize_multidigraph_paths_def foldl_append_acc itertools_product_eq cong: map_cong)

lemma hop_interfaces_ok:
  "has_edge G u v \<Longrightarrow> hop_interfaces G u v = Inr (ecmp_set G u v)"
proof -
  assume h: "has_edge G u v"
  let ?es = "edges_between G u v"
  have ne: "?es \<noteq> []" using h by (simp add: has_edge_def)
  have "\<And>e. e \<in> set ?es \<Longrightarrow>
          (e_cost e = Min (set (map e_cost ?es))) = (\<forall>e' \<in> set ?es. e_cost e \<le> e_cost e')"
  proof -
    fix e assume e: "e \<in> set ?es"
    have fin: "finite (e_cost ` set ?es)" by simp
    have nemp: "e_cost ` set ?es \<noteq> {}" using ne by simp
    have "(e_cost e = Min (e_cost ` set ?es)) = (\<forall>c \<in> e_cost ` set ?es. e_cost e \<le> c)"
      using e Min_eqI [OF fin, of "e_cost e"] Min_le [OF fin] by (metis imageI order_refl)
    then show "(e_cost e = Min (set (map e_cost ?es))) = (\<forall>e' \<in> set ?es. e_cost e \<le> e_cost e')"
      by simp
  qed
  then have "filter (\<lambda>d. e_cost d = Min (set (map e_cost ?es))) ?es
             = filter (\<lambda>e. \<forall>e' \<in> set ?es. e_cost e \<le> e_cost e') ?es"
    by (intro filter_cong) auto
  then show ?thesis using ne by (simp add: hop_interfaces_def ecmp_set_def Let_def)
qed

lemma path_hops_ok:
  "list_all (\<lambda>(u, v). has_edge G u v) (zip (c # hops) hops) \<Longrightarrow>
   path_hops G c hops = Inr (map (\<lambda>(u, v). ecmp_set G u v) (zip (c # hops) hops))"
  by (induction hops arbitrary: c) (simp_all add: hop_interfaces_ok)

lemma get_all_paths_mdg_ok:
  "list_all (node_hop_sequence G) nx_sp \<Longrightarrow>
   get_all_paths_mdg G nx_sp = Inr (map (\<lambda>p. map (\<lambda>(u, v). ecmp_set G u v) (node_hops p)) nx_sp)"
proof (induction nx_sp)
  case Nil
  then show ?case by simp
next
  case (Cons p ps)
  then obtain c hops where p: "p = c # hops"
    by (cases p) (auto simp: node_hop_sequence_def)
  with Cons show ?case
    by (simp add: node_hop_sequence_def node_hops_def path_hops_ok)
qed


lemma ex_graph_edges: "g_edges ex_graph = map edge_names ex_ints"
proof -
  have "filter (edge_eligible False 0 False) (interface_objects ex_model) = ex_ints"
    by (simp add: ex_model_def ex_ints_def edge_eligible_def mk_int_def reservable_bandwidth_def)
  then show ?thesis by (simp add: ex_graph_def g_edges_make_graph)
qed

lemma ex_graph_A_B:
  "edges_between ex_graph ''A'' ''B''
   = [edge_names (mk_int ''A-to-B'' ''A'' ''B'' 10 100 ''1''),
      edge_names (mk_int ''A-to-B_2'' ''A'' ''B'' 10 50 ''2'')]"
  by (simp add: edges_between_def ex_graph_edges ex_ints_def edge_names_def mk_int_def)

lemma concrete_path_in_enumeration:
  assumes "ip \<in> set (cartesian_enumeration G nx_sp)"
  shows "\<exists>p \<in> set nx_sp. length ip = length (node_hops p)
           \<and> (\<forall>j < length ip. ip ! j \<in> set (ecmp_set G (fst (node_hops p ! j)) (snd (node_hops p ! j))))"
proof -
  from assms obtain p where p: "p \<in> set nx_sp"
    and ip: "ip \<in> set (product_lists (map (\<lambda>(u, v). ecmp_set G u v) (node_hops p)))"
    by (auto simp: cartesian_enumeration_def)
  from ip have l2: "list_all2 (\<lambda>x ys. x \<in> set ys) ip (map (\<lambda>(u, v). ecmp_set G u v) (node_hops p))"
    by (simp add: product_lists_set)
  then have len: "length ip = length (node_hops p)"
    by (auto dest: list_all2_lengthD)
  have "\<forall>j < length ip. ip ! j \<in> set (ecmp_set G (fst (node_hops p ! j)) (snd (node_hops p ! j)))"
  proof (intro allI impI)
    fix j assume j: "j < length ip"
    from l2 j have "ip ! j \<in> set (map (\<lambda>(u, v). ecmp_set G u v) (node_hops p) ! j)"
      by (rule list_all2_nthD)
    with j len show "ip ! j \<in> set (ecmp_set G (fst (node_hops p ! j)) (snd (node_hops p ! j)))"
      by (simp add: case_prod_beta)
  qed
  with p len show ?thesis by blast
qed

text \<open>
  Claim C4. For every multigraph and every list of node-hop sequences of it, the path
  enumerator (\<open>_get_all_paths_mdg\<close> followed by \<open>_normalize_multidigraph_paths\<close>)
  returns exactly the flattened list, over the sequences, of the Cartesian product along
  the adjacent vertex pairs of the interfaces of the minimum-cost edges between the
  pair; every returned path has one interface per hop, taken from that set.
\<close>

theorem path_enumerator_cartesian_product:
  assumes "list_all (node_hop_sequence G) nx_sp"
  shows "\<exists>all_paths. get_all_paths_mdg G nx_sp = Inr all_paths
           \<and> normalize_multidigraph_paths all_paths = cartesian_enumeration G nx_sp
           \<and> (\<forall>ip \<in> set (normalize_multidigraph_paths all_paths). \<exists>p \<in> set nx_sp.
                 length ip = length (node_hops p)
                 \<and> (\<forall>j < length ip.
                       ip ! j \<in> set (ecmp_set G (fst (node_hops p ! j)) (snd (node_hops p ! j)))))"
proof -
  let ?all = "map (\<lambda>p. map (\<lambda>(u, v). ecmp_set G u v) (node_hops p)) nx_sp"
  have a: "get_all_paths_mdg G nx_sp = Inr ?all"
    using assms by (rule get_all_paths_mdg_ok)
  have b: "normalize_multidigraph_paths ?all = cartesian_enumeration G nx_sp"
    by (simp add: normalize_eq cartesian_enumeration_def comp_def)
  have c: "\<forall>ip \<in> set (normalize_multidigraph_paths ?all). \<exists>p \<in> set nx_sp.
             length ip = length (node_hops p)
             \<and> (\<forall>j < length ip.
                   ip ! j \<in> set (ecmp_set G (fst (node_hops p ! j)) (snd (node_hops p ! j))))"
    unfolding b by (intro ballI concrete_path_in_enumeration)
  from a b c show ?thesis by blast
qed

theorem path_enumerator_cartesian_product_witness:
  "list_all (node_hop_sequence ex_graph) [[''A'', ''B'']]
   \<and> (\<exists>all_paths. get_all_paths_mdg ex_graph [[''A'', ''B'']] = Inr all_paths
         \<and> normalize_multidigraph_paths all_paths
             = [[mk_int ''A-to-B'' ''A'' ''B'' 10 100 ''1''], [mk_int ''A-to-B_2'' ''A'' ''B'' 10 50 ''2'']])"
proof -
  have h: "list_all (node_hop_sequence ex_graph) [[''A'', ''B'']]"
    by (simp add: node_hop_sequence_def node_hops_def has_edge_def ex_graph_A_B)
  have e: "ecmp_set ex_graph ''A'' ''B''
           = [mk_int ''A-to-B'' ''A'' ''B'' 10 100 ''1'', mk_int ''A-to-B_2'' ''A'' ''B'' 10 50 ''2'']"
    by (simp add: ecmp_set_def ex_graph_A_B edge_names_def mk_int_def)
  have c: "cartesian_enumeration ex_graph [[''A'', ''B'']]
           = [[mk_int ''A-to-B'' ''A'' ''B'' 10 100 ''1''], [mk_int ''A-to-B_2'' ''A'' ''B'' 10 50 ''2'']]"
    by (simp add: cartesian_enumeration_def node_hops_def e)
  from path_enumerator_cartesian_product [OF h] obtain all_paths where
    "get_all_paths_mdg ex_graph [[''A'', ''B'']] = Inr all_paths"
    "normalize_multidigraph_paths all_paths = cartesian_enumeration ex_graph [[''A'', ''B'']]"
    by blast
  with h c show ?thesis by metis
qed

section \<open>Properties of the LSP placer\<close>

lemma normalize_get_all_paths:
  "list_all (node_hop_sequence G) nx_sp \<Longrightarrow>
   \<exists>all_paths. get_all_paths_mdg G nx_sp = Inr all_paths
      \<and> normalize_multidigraph_paths all_paths = cartesian_enumeration G nx_sp"
  by (simp add: get_all_paths_mdg_ok normalize_eq cartesian_enumeration_def comp_def)

lemma candidates_filter:
  "\<forall>p \<in> set ps. p \<noteq> [] \<Longrightarrow>
   candidate_path_info_w_reservable_bw bw ps = Inr (filter (sufficient_bw bw) ps)"
  by (induction ps) (simp_all add: path_min_reservable_bandwidth_def sufficient_bw_def)

lemma node_hops_length: "length (node_hops p) = length p - 1"
  by (simp add: node_hops_def)

lemma nx_path_two_nodes:
  assumes "nx_path_ok G s d p" "s \<noteq> d"
  shows "2 \<le> length p"
proof (cases p)
  case Nil
  with assms show ?thesis by (simp add: nx_path_ok_def node_hop_sequence_def)
next
  case (Cons a q)
  with assms have "q \<noteq> []" by (auto simp: nx_path_ok_def)
  with Cons show ?thesis by (cases q) simp_all
qed

lemma enumerated_nonempty:
  assumes "list_all (nx_path_ok G s d) ps" "s \<noteq> d" "ip \<in> set (cartesian_enumeration G ps)"
  shows "ip \<noteq> []"
proof -
  from concrete_path_in_enumeration [OF assms(3)] obtain p where
    p: "p \<in> set ps" and len: "length ip = length (node_hops p)" by blast
  from assms(1) p have "nx_path_ok G s d p" by (simp add: list_all_iff)
  from nx_path_two_nodes [OF this assms(2)] len show ?thesis
    by (auto simp: node_hops_length)
qed

lemma nx_paths_node_hop:
  "list_all (nx_path_ok G s d) ps \<Longrightarrow> list_all (node_hop_sequence G) ps"
  by (simp add: list_all_iff nx_path_ok_def)

text \<open>The loop body in closed form, for an answer of the search that is well formed.\<close>

lemma determine_lsp_state_closed:
  assumes ok: "nx_answer_ok (lsp_graph M lsp traff) (source_node_object lsp) (dest_node_object lsp)
                 (lsp_answer nx M lsp traff)"
    and src: "source_node_object lsp \<in> set (g_nodes (lsp_graph M lsp traff))"
    and ne: "source_node_object lsp \<noteq> dest_node_object lsp"
  shows "determine_lsp_state nx draws traff M k lsp =
     (let bw = lsp_bandwidth lsp traff;
          lsp1 = lsp\<lparr>lsp_reserved_bandwidth := Bw bw, setup_bandwidth := bw\<rparr>;
          cands = eligible_paths (lsp_graph M lsp traff) (lsp_answer nx M lsp traff) bw
      in if cands = [] then Inr (M, k, mark_unrouted lsp1)
         else Inr (M\<lparr>interface_objects :=
                       consume_reserved_bandwidth (map int_key (fst (new_path draws k cands))) bw
                         (interface_objects M)\<rparr>,
                   snd (new_path draws k cands),
                   add_lsp_path_data lsp1 (fst (new_path draws k cands))))"
proof (cases "lsp_answer nx M lsp traff")
  case NetworkXNoPath
  then show ?thesis
    by (simp add: determine_lsp_state_def lsp_answer_def lsp_graph_def Let_def
        eligible_paths_def enumerated_paths_def)
next
  case NodeNotFound
  with ok src show ?thesis by (simp add: nx_answer_ok_def)
next
  case (NxPaths ps)
  let ?G = "lsp_graph M lsp traff"
  let ?bw = "lsp_bandwidth lsp traff"
  from ok NxPaths have pok: "list_all (nx_path_ok ?G (source_node_object lsp) (dest_node_object lsp)) ps"
    by (simp add: nx_answer_ok_def)
  from normalize_get_all_paths [OF nx_paths_node_hop [OF pok]] obtain all_paths where
    a: "get_all_paths_mdg ?G ps = Inr all_paths"
    and n: "normalize_multidigraph_paths all_paths = cartesian_enumeration ?G ps" by blast
  have "\<forall>ip \<in> set (cartesian_enumeration ?G ps). ip \<noteq> []"
    using enumerated_nonempty [OF pok ne] by blast
  then have c: "candidate_path_info_w_reservable_bw ?bw (cartesian_enumeration ?G ps)
                = Inr (filter (sufficient_bw ?bw) (cartesian_enumeration ?G ps))"
    by (rule candidates_filter)
  have e: "eligible_paths ?G (lsp_answer nx M lsp traff) ?bw
           = filter (sufficient_bw ?bw) (cartesian_enumeration ?G ps)"
    by (simp add: eligible_paths_def enumerated_paths_def NxPaths)
  have g: "nx (make_weighted_network_graph_mdg M False ?bw True) (source_node_object lsp)
             (dest_node_object lsp) = NxPaths ps"
    using NxPaths by (simp add: lsp_answer_def lsp_graph_def)
  have a': "get_all_paths_mdg (make_weighted_network_graph_mdg M False ?bw True) ps = Inr all_paths"
    using a by (simp add: lsp_graph_def)
  have n': "normalize_multidigraph_paths all_paths
            = cartesian_enumeration (make_weighted_network_graph_mdg M False ?bw True) ps"
    using n by (simp add: lsp_graph_def)
  have c': "candidate_path_info_w_reservable_bw ?bw
             (cartesian_enumeration (make_weighted_network_graph_mdg M False ?bw True) ps)
            = Inr (filter (sufficient_bw ?bw)
                (cartesian_enumeration (make_weighted_network_graph_mdg M False ?bw True) ps))"
    using c by (simp add: lsp_graph_def)
  have e': "eligible_paths ?G (lsp_answer nx M lsp traff) ?bw
           = filter (sufficient_bw ?bw)
               (cartesian_enumeration (make_weighted_network_graph_mdg M False ?bw True) ps)"
    using e by (simp add: lsp_graph_def)
  show ?thesis
    unfolding determine_lsp_state_def Let_def e'
    by (simp add: g a' n' c' split_beta)
qed


lemma lowest_hop_count_paths_props:
  assumes "cands \<noteq> []"
  shows "lowest_hop_count_paths cands \<noteq> []"
    and "set (lowest_hop_count_paths cands) \<subseteq> set cands"
    and "\<forall>p \<in> set (lowest_hop_count_paths cands). \<forall>q \<in> set cands. length p \<le> length q"
proof -
  let ?L = "length ` set cands"
  have fin: "finite ?L" by simp
  have nemp: "?L \<noteq> {}" using assms by simp
  from Min_in [OF fin nemp] obtain p where p: "p \<in> set cands" "length p = Min ?L" by auto
  then have "p \<in> set (lowest_hop_count_paths cands)"
    by (simp add: lowest_hop_count_paths_def)
  then show "lowest_hop_count_paths cands \<noteq> []" by auto
  show "set (lowest_hop_count_paths cands) \<subseteq> set cands"
    by (auto simp: lowest_hop_count_paths_def Let_def)
  show "\<forall>p \<in> set (lowest_hop_count_paths cands). \<forall>q \<in> set cands. length p \<le> length q"
    using Min_le [OF fin] by (auto simp: lowest_hop_count_paths_def Let_def)
qed

lemma lowest_hop_count_paths_single: "lowest_hop_count_paths [c] = [c]"
  by (simp add: lowest_hop_count_paths_def)

lemma new_path_in_lowest:
  assumes "cands \<noteq> []"
  shows "fst (new_path draws k cands) \<in> set (lowest_hop_count_paths cands)"
proof (cases "length cands > 1")
  case True
  note ne = lowest_hop_count_paths_props(1) [OF assms]
  show ?thesis
  proof (cases "length (lowest_hop_count_paths cands) > 1")
    case True
    then have "0 < length (lowest_hop_count_paths cands)"
      by linarith
    then have "draws k mod length (lowest_hop_count_paths cands) < length (lowest_hop_count_paths cands)"
      by (rule mod_less_divisor)
    then have "lowest_hop_count_paths cands ! (draws k mod length (lowest_hop_count_paths cands))
                 \<in> set (lowest_hop_count_paths cands)"
      by (rule nth_mem)
    with True \<open>length cands > 1\<close> show ?thesis
      by (simp add: new_path_def random_choice_def)
  next
    case False
    with \<open>length cands > 1\<close> ne show ?thesis
      by (simp add: new_path_def nth_mem)
  qed
next
  case False
  with assms obtain c where "cands = [c]"
    by (cases cands) (auto simp: Suc_less_eq)
  then show ?thesis
    by (simp add: new_path_def lowest_hop_count_paths_single)
qed

lemma vertex_of_model_node:
  "n \<in> node_name ` set (node_objects M) \<Longrightarrow>
   n \<in> set (g_nodes (make_weighted_network_graph_mdg M incl bw rsvp))"
  by (auto simp: make_weighted_network_graph_mdg_def Let_def g_nodes_add_nodes_from)



lemma lowest_is_fewest:
  assumes "cands \<noteq> []"
  shows "lowest_hop_count_paths cands = fewest_hop_paths cands"
proof -
  let ?L = "length ` set cands"
  have fin: "finite ?L" by simp
  have nemp: "?L \<noteq> {}" using assms by simp
  have "\<And>p. p \<in> set cands \<Longrightarrow> (length p = Min ?L) = (\<forall>q \<in> set cands. length p \<le> length q)"
  proof -
    fix p assume p: "p \<in> set cands"
    have "(length p = Min ?L) = (\<forall>n \<in> ?L. length p \<le> n)"
      using p Min_eqI [OF fin, of "length p"] Min_le [OF fin] by (metis imageI)
    then show "(length p = Min ?L) = (\<forall>q \<in> set cands. length p \<le> length q)" by simp
  qed
  then show ?thesis
    unfolding lowest_hop_count_paths_def fewest_hop_paths_def Let_def
    by (intro filter_cong) auto
qed

text \<open>
  Claim C7. When more than one candidate path has sufficient reservable bandwidth, the
  path that the placer records is one of the candidates with the fewest hops; when
  exactly one candidate has the fewest hops it is that one and no random draw is
  consumed, and only when several have the fewest hops is the path the random choice
  among them.
\<close>

theorem placer_prefers_fewest_hops:
  assumes "nx_answer_ok (lsp_graph M lsp traff) (source_node_object lsp) (dest_node_object lsp)
             (lsp_answer nx M lsp traff)"
    and "source_node_object lsp \<in> node_name ` set (node_objects M)"
    and "source_node_object lsp \<noteq> dest_node_object lsp"
    and "cands = eligible_paths (lsp_graph M lsp traff) (lsp_answer nx M lsp traff)
                   (lsp_bandwidth lsp traff)"
    and "length cands > 1"
  shows "\<exists>M' k' lsp' p. determine_lsp_state nx draws traff M k lsp = Inr (M', k', lsp')
     \<and> path lsp' = LspRouted \<lparr>interfaces = map int_key p,
                                baseline_path_cost = sum_list (map cost p)\<rparr>
     \<and> p \<in> set (fewest_hop_paths cands)
     \<and> (length (fewest_hop_paths cands) = 1 \<longrightarrow> p = fewest_hop_paths cands ! 0 \<and> k' = k)
     \<and> (length (fewest_hop_paths cands) > 1 \<longrightarrow>
          p = fewest_hop_paths cands ! (draws k mod length (fewest_hop_paths cands)) \<and> k' = Suc k)"
proof -
  let ?bw = "lsp_bandwidth lsp traff"
  let ?G = "lsp_graph M lsp traff"
  let ?lsp1 = "lsp\<lparr>lsp_reserved_bandwidth := Bw ?bw, setup_bandwidth := ?bw\<rparr>"
  let ?p = "fst (new_path draws k cands)"
  let ?k = "snd (new_path draws k cands)"
  let ?M' = "M\<lparr>interface_objects := consume_reserved_bandwidth (map int_key ?p) ?bw (interface_objects M)\<rparr>"
  have src: "source_node_object lsp \<in> set (g_nodes ?G)"
    using assms(2) unfolding lsp_graph_def by (rule vertex_of_model_node)
  from assms(5) have ne: "cands \<noteq> []" by auto
  have r: "determine_lsp_state nx draws traff M k lsp = Inr (?M', ?k, add_lsp_path_data ?lsp1 ?p)"
    using determine_lsp_state_closed [OF assms(1) src assms(3), of draws k] ne assms(4)
    by (simp add: Let_def)
  have l: "path (add_lsp_path_data ?lsp1 ?p)
             = LspRouted \<lparr>interfaces = map int_key ?p, baseline_path_cost = sum_list (map cost ?p)\<rparr>"
    by (simp add: add_lsp_path_data_def)
  note lf = lowest_is_fewest [OF ne]
  have m: "?p \<in> set (fewest_hop_paths cands)"
    using new_path_in_lowest [OF ne] lf by simp
  have one: "length (fewest_hop_paths cands) = 1 \<longrightarrow> ?p = fewest_hop_paths cands ! 0 \<and> ?k = k"
    using assms(5) by (simp add: new_path_def lf)
  have many: "length (fewest_hop_paths cands) > 1 \<longrightarrow>
          ?p = fewest_hop_paths cands ! (draws k mod length (fewest_hop_paths cands)) \<and> ?k = Suc k"
    using assms(5) by (simp add: new_path_def lf random_choice_def)
  from r l m one many show ?thesis by blast
qed

lemma nx_one_hop_ok: "nx_search_ok nx_one_hop"
  by (auto simp: nx_search_ok_def nx_answer_ok_def nx_one_hop_def nx_path_ok_def
      node_hop_sequence_def node_hops_def)

lemma nx_search_answer_ok:
  "nx_search_ok nx \<Longrightarrow>
   nx_answer_ok (lsp_graph M lsp traff) (source_node_object lsp) (dest_node_object lsp)
     (lsp_answer nx M lsp traff)"
  by (simp add: nx_search_ok_def lsp_answer_def)


lemma ex_lsp_fields:
  "source_node_object (ex_lsp bw) = ''A''" "dest_node_object (ex_lsp bw) = ''B''"
  "lsp_bandwidth (ex_lsp bw) t = bw"
  by (simp_all add: ex_lsp_def mk_lsp_def lsp_bandwidth_def)

lemma ex_lsp_source_is_node: "source_node_object (ex_lsp bw) \<in> node_name ` set (node_objects ex_model)"
  by (simp add: ex_lsp_fields ex_model_def mk_node_def)

lemma ex_lsp_graph_edges_10: "g_edges (lsp_graph ex_model (ex_lsp 10) t) = map edge_names ex_ints"
proof -
  have "filter (edge_eligible False 10 True) (interface_objects ex_model) = ex_ints"
    by (simp add: ex_model_def ex_ints_def edge_eligible_def mk_int_def reservable_bandwidth_def)
  then show ?thesis by (simp add: lsp_graph_def ex_lsp_fields g_edges_make_graph)
qed

lemma ex_lsp_graph_A_B_10:
  "edges_between (lsp_graph ex_model (ex_lsp 10) t) ''A'' ''B''
   = [edge_names (mk_int ''A-to-B'' ''A'' ''B'' 10 100 ''1''),
      edge_names (mk_int ''A-to-B_2'' ''A'' ''B'' 10 50 ''2'')]"
  by (simp add: edges_between_def ex_lsp_graph_edges_10 ex_ints_def edge_names_def mk_int_def)

lemma ex_lsp_answer_10:
  "lsp_answer nx_one_hop ex_model (ex_lsp 10) t = NxPaths [[''A'', ''B'']]"
proof -
  have v: "''A'' \<in> set (g_nodes (lsp_graph ex_model (ex_lsp 10) t))"
    using ex_lsp_source_is_node [of 10] unfolding lsp_graph_def ex_lsp_fields
    by (rule vertex_of_model_node)
  show ?thesis
    by (simp add: lsp_answer_def nx_one_hop_def ex_lsp_fields v has_edge_def ex_lsp_graph_A_B_10)
qed

lemma ex_eligible_10:
  "eligible_paths (lsp_graph ex_model (ex_lsp 10) t) (lsp_answer nx_one_hop ex_model (ex_lsp 10) t) 10
   = [[mk_int ''A-to-B'' ''A'' ''B'' 10 100 ''1''], [mk_int ''A-to-B_2'' ''A'' ''B'' 10 50 ''2'']]"
proof -
  have e: "ecmp_set (lsp_graph ex_model (ex_lsp 10) t) ''A'' ''B''
           = [mk_int ''A-to-B'' ''A'' ''B'' 10 100 ''1'', mk_int ''A-to-B_2'' ''A'' ''B'' 10 50 ''2'']"
    by (simp add: ecmp_set_def ex_lsp_graph_A_B_10 edge_names_def mk_int_def)
  have c: "cartesian_enumeration (lsp_graph ex_model (ex_lsp 10) t) [[''A'', ''B'']]
           = [[mk_int ''A-to-B'' ''A'' ''B'' 10 100 ''1''], [mk_int ''A-to-B_2'' ''A'' ''B'' 10 50 ''2'']]"
    by (simp add: cartesian_enumeration_def node_hops_def e)
  have s1: "sufficient_bw 10 [mk_int ''A-to-B'' ''A'' ''B'' 10 100 ''1'']"
    by (simp add: sufficient_bw_def reservable_bandwidth_def mk_int_def)
  have s2: "sufficient_bw 10 [mk_int ''A-to-B_2'' ''A'' ''B'' 10 50 ''2'']"
    by (simp add: sufficient_bw_def reservable_bandwidth_def mk_int_def)
  show ?thesis
    by (simp add: eligible_paths_def enumerated_paths_def ex_lsp_answer_10 c s1 s2)
qed


theorem placer_prefers_fewest_hops_witness:
  "nx_answer_ok (lsp_graph ex_model (ex_lsp 10) 0) (source_node_object (ex_lsp 10))
     (dest_node_object (ex_lsp 10)) (lsp_answer nx_one_hop ex_model (ex_lsp 10) 0)
   \<and> source_node_object (ex_lsp 10) \<in> node_name ` set (node_objects ex_model)
   \<and> source_node_object (ex_lsp 10) \<noteq> dest_node_object (ex_lsp 10)
   \<and> length (eligible_paths (lsp_graph ex_model (ex_lsp 10) 0)
               (lsp_answer nx_one_hop ex_model (ex_lsp 10) 0) (lsp_bandwidth (ex_lsp 10) 0)) > 1
   \<and> (\<exists>M' k' lsp'. determine_lsp_state nx_one_hop (\<lambda>n. 1) 0 ex_model 0 (ex_lsp 10) = Inr (M', k', lsp')
         \<and> k' = 1
         \<and> path lsp' = LspRouted \<lparr>interfaces = [(''A'', ''A-to-B_2'')], baseline_path_cost = 10\<rparr>)"
proof -
  let ?c = "[[mk_int ''A-to-B'' ''A'' ''B'' 10 100 ''1''], [mk_int ''A-to-B_2'' ''A'' ''B'' 10 50 ''2'']]"
  have h1: "nx_answer_ok (lsp_graph ex_model (ex_lsp 10) 0) (source_node_object (ex_lsp 10))
     (dest_node_object (ex_lsp 10)) (lsp_answer nx_one_hop ex_model (ex_lsp 10) 0)"
    by (rule nx_search_answer_ok [OF nx_one_hop_ok])
  have h2: "source_node_object (ex_lsp 10) \<in> node_name ` set (node_objects ex_model)"
    by (rule ex_lsp_source_is_node)
  have h3: "source_node_object (ex_lsp 10) \<noteq> dest_node_object (ex_lsp 10)"
    by (simp add: ex_lsp_fields)
  have h4: "?c = eligible_paths (lsp_graph ex_model (ex_lsp 10) 0)
               (lsp_answer nx_one_hop ex_model (ex_lsp 10) 0) (lsp_bandwidth (ex_lsp 10) 0)"
    by (simp add: ex_lsp_fields ex_eligible_10)
  have h5: "length ?c > 1" by simp
  have f: "fewest_hop_paths ?c = ?c" by (simp add: fewest_hop_paths_def)
  from placer_prefers_fewest_hops [OF h1 h2 h3 h4 h5, of "\<lambda>n. 1" 0]
  obtain M' k' lsp' p where
    r: "determine_lsp_state nx_one_hop (\<lambda>n. 1) 0 ex_model 0 (ex_lsp 10) = Inr (M', k', lsp')"
    and l: "path lsp' = LspRouted \<lparr>interfaces = map int_key p, baseline_path_cost = sum_list (map cost p)\<rparr>"
    and m: "length (fewest_hop_paths ?c) > 1 \<longrightarrow>
          p = fewest_hop_paths ?c ! (1 mod length (fewest_hop_paths ?c)) \<and> k' = Suc 0"
    by auto
  from m have p: "p = [mk_int ''A-to-B_2'' ''A'' ''B'' 10 50 ''2'']" and k: "k' = 1"
    by (simp_all add: f)
  have "path lsp' = LspRouted \<lparr>interfaces = [(''A'', ''A-to-B_2'')], baseline_path_cost = 10\<rparr>"
    by (simp add: l p int_key_def mk_int_def)
  with r k h1 h2 h3 h4 h5 show ?thesis by (metis)
qed

section \<open>The bound on the reserved bandwidth\<close>

lemma int_key_reserved_update [simp]:
  "int_key (i\<lparr>reserved_bandwidth := x\<rparr>) = int_key i"
  by (simp add: int_key_def)



















section \<open>Properties of the demand router\<close>









section \<open>Properties of the path queries\<close>

text \<open>
  Claim C10. For two node names of the model without an eligible path between them,
  \<open>get_shortest_path\<close> returns the dictionary \<open>{'cost': None, 'path': []}\<close> and
  \<open>get_all_paths_reservable_bw\<close> returns \<open>{'path': []}\<close>, and neither raises: the
  exception that the shortest-path generator raises is caught around the conversion
  loop, and whenever that generator ends with an exception the dictionary built so far
  is returned.
\<close>

theorem path_queries_without_path:
  "(all_shortest_paths (make_weighted_network_graph_mdg M False needed_bw False) s d = no_shortest_path
      \<longrightarrow> get_shortest_path all_shortest_paths shortest_path_length M s d needed_bw
            = Inr \<lparr>pd_cost = None, pd_path = Converted []\<rparr>)
   \<and> (all_simple_paths (make_weighted_network_graph_mdg M incl needed_bw False) s d = no_simple_path
      \<longrightarrow> get_all_paths_reservable_bw all_simple_paths M s d incl needed_bw
            = Inr \<lparr>pd_cost = None, pd_path = Normalized []\<rparr>)
   \<and> (all_shortest_paths (make_weighted_network_graph_mdg M False needed_bw False) s d
        = Generator yields True
      \<longrightarrow> (\<exists>c converted. get_shortest_path all_shortest_paths shortest_path_length M s d needed_bw
            = Inr \<lparr>pd_cost = c, pd_path = Converted converted\<rparr>))"
proof (intro conjI impI)
  assume "all_shortest_paths (make_weighted_network_graph_mdg M False needed_bw False) s d = no_shortest_path"
  then show "get_shortest_path all_shortest_paths shortest_path_length M s d needed_bw
            = Inr \<lparr>pd_cost = None, pd_path = Converted []\<rparr>"
    by (simp add: get_shortest_path_def no_shortest_path_def Let_def)
next
  assume "all_simple_paths (make_weighted_network_graph_mdg M incl needed_bw False) s d = no_simple_path"
  then show "get_all_paths_reservable_bw all_simple_paths M s d incl needed_bw
            = Inr \<lparr>pd_cost = None, pd_path = Normalized []\<rparr>"
    by (simp add: get_all_paths_reservable_bw_def no_simple_path_def Let_def
        normalize_multidigraph_paths_def)
next
  assume a: "all_shortest_paths (make_weighted_network_graph_mdg M False needed_bw False) s d
        = Generator yields True"
  let ?G = "make_weighted_network_graph_mdg M False needed_bw False"
  show "\<exists>c converted. get_shortest_path all_shortest_paths shortest_path_length M s d needed_bw
            = Inr \<lparr>pd_cost = c, pd_path = Converted converted\<rparr>"
  proof (cases "shortest_path_loop M needed_bw (shortest_path_length ?G s d) yields [] None")
    case (Inl x)
    with a show ?thesis
      by (cases x) (simp add: get_shortest_path_def Let_def)
  next
    case (Inr x)
    with a show ?thesis
      by (cases x) (simp add: get_shortest_path_def Let_def)
  qed
qed

theorem path_queries_without_path_witness:
  "get_shortest_path (\<lambda>G s d. no_shortest_path) (\<lambda>G s d. None) ex_model ''A'' ''Z'' 0
     = Inr \<lparr>pd_cost = None, pd_path = Converted []\<rparr>
   \<and> get_all_paths_reservable_bw (\<lambda>G s d. no_simple_path) ex_model ''A'' ''Z'' True 0
     = Inr \<lparr>pd_cost = None, pd_path = Normalized []\<rparr>"
  using path_queries_without_path
    [of "\<lambda>G s d. no_shortest_path" ex_model 0 "''A''" "''Z''" "\<lambda>G s d. None"
        "\<lambda>G s d. no_simple_path" True "[]"]
  by simp

section \<open>Properties of the loader\<close>

lemma bad_circuit_ids_set: "set (bad_circuit_ids cids) = offending_circuit_ids cids"
  by (auto simp: bad_circuit_ids_def offending_circuit_ids_def)

lemma bad_circuit_ids_distinct: "distinct (map fst (bad_circuit_ids cids))"
  by (simp add: bad_circuit_ids_def comp_def distinct_map_filter)

lemma bad_circuit_ids_empty:
  "(bad_circuit_ids cids = []) = (\<forall>c \<in> set cids. count_list cids c = 2)"
  by (auto simp: bad_circuit_ids_def filter_empty_conv)

lemma interface_of_line_error:
  "interface_of_line py_int py_float lines l \<noteq> Inl (CircuitIdException bad)"
  by (auto simp: interface_of_line_def new_interface_def Let_def split: option.splits)

lemma extract_loop_error:
  "extract_loop py_int py_float lines ls is ns \<noteq> Inl (CircuitIdException bad)"
proof (induction ls arbitrary: "is" ns)
  case Nil
  then show ?case by simp
next
  case (Cons l ls)
  show ?case
  proof (cases "interface_of_line py_int py_float lines l")
    case (Inl e)
    with interface_of_line_error [of py_int py_float lines l bad] show ?thesis by auto
  next
    case (Inr i)
    with Cons show ?thesis by simp
  qed
qed

text \<open>
  Claim C9, as amended. \<open>load_model_file\<close> raises the exception of the circuit id
  check if and only if some circuit id of the interfaces table appears a number of
  times different from two, and that exception lists exactly the offending circuit
  ids, each once, with its number of appearances.
\<close>

theorem circuit_id_error_iff_bad_count:
  "((\<exists>bad. load_model_file_interfaces py_int py_float e lines = Inl (CircuitIdException bad))
      = (\<exists>c \<in> set (circuit_id_list (interface_lines lines e)).
           count_list (circuit_id_list (interface_lines lines e)) c \<noteq> 2))
   \<and> (\<forall>bad. load_model_file_interfaces py_int py_float e lines = Inl (CircuitIdException bad)
         \<longrightarrow> set bad = offending_circuit_ids (circuit_id_list (interface_lines lines e))
             \<and> distinct (map fst bad))"
proof -
  let ?cids = "circuit_id_list (interface_lines lines e)"
  show ?thesis
  proof (cases "bad_circuit_ids ?cids = []")
    case True
    then have "load_model_file_interfaces py_int py_float e lines
               = extract_interface_data_and_implied_nodes py_int py_float e lines"
      by (simp add: load_model_file_interfaces_def)
    then have "\<And>bad. load_model_file_interfaces py_int py_float e lines \<noteq> Inl (CircuitIdException bad)"
      by (simp add: extract_interface_data_and_implied_nodes_def extract_loop_error)
    with True bad_circuit_ids_empty [of ?cids] show ?thesis by auto
  next
    case False
    then have l: "load_model_file_interfaces py_int py_float e lines
               = Inl (CircuitIdException (bad_circuit_ids ?cids))"
      by (simp add: load_model_file_interfaces_def)
    from False bad_circuit_ids_empty [of ?cids]
    have "\<exists>c \<in> set ?cids. count_list ?cids c \<noteq> 2" by blast
    with l bad_circuit_ids_set [of ?cids] bad_circuit_ids_distinct [of ?cids] show ?thesis
      by auto
  qed
qed

lemma ex_odd_cids: "circuit_id_list (interface_lines ex_odd_file None) = [''1'', ''1'', ''2'']"
  by (simp add: circuit_id_list_def interface_lines_def ex_odd_file_def py_split_def is_space_def)

theorem circuit_id_error_iff_bad_count_witness:
  "load_model_file_interfaces ex_int ex_float None ex_odd_file = Inl (CircuitIdException [(''2'', 1)])"
proof -
  have b: "bad_circuit_ids [''1'', ''1'', ''2''] = [(''2'', 1)]"
    by (simp add: bad_circuit_ids_def)
  from circuit_id_error_iff_bad_count [of ex_int ex_float None ex_odd_file]
  show ?thesis
    by (simp add: load_model_file_interfaces_def ex_odd_cids b)
qed

text \<open>
  A file whose interfaces table has a row of three columns holds no circuit id at all,
  so no circuit id appears a wrong number of times; loading it raises the
  \<open>ModelException\<close> for a row with fewer than six columns.
\<close>

theorem load_error_without_bad_circuit_id:
  "load_model_file_interfaces ex_int ex_float None ex_short_file = Inl (LineException ''A B A-to-B'' 2)
   \<and> circuit_id_list (interface_lines ex_short_file None) = []"
  by (simp add: load_model_file_interfaces_def extract_interface_data_and_implied_nodes_def
      interface_of_line_def circuit_id_list_def interface_lines_def ex_short_file_def
      bad_circuit_ids_def py_split_def is_space_def)

section \<open>Properties of the validator\<close>

lemma ex_orphan_edges:
  "g_edges (make_weighted_network_graph_mdg ex_orphan_model True 0 False)
   = [edge_names (mk_int ''A-to-B'' ''A'' ''B'' 10 100 ''1'')]"
proof -
  have "filter (edge_eligible True 0 False) (interface_objects ex_orphan_model)
        = [mk_int ''A-to-B'' ''A'' ''B'' 10 100 ''1'']"
    by (simp add: ex_orphan_model_def edge_eligible_def mk_int_def reservable_bandwidth_def)
  then show ?thesis by (simp add: g_edges_make_graph)
qed

lemma circuits_loop_exception:
  "circuits_loop M es marked circuits \<noteq> Inl (ValidationFailed fs)"
  by (induction es arbitrary: marked circuits) (auto split: option.splits)

lemma make_circuits_exception:
  "make_circuits_multidigraph M r f \<noteq> Inl (ValidationFailed fs)"
  using circuits_loop_exception [of M _ "[]" "[]" fs]
  by (auto simp: make_circuits_multidigraph_def Let_def split: sum.splits)

lemma validate_model_never_reports_orphans:
  "validate_model M = Inl (ValidationFailed fs) \<Longrightarrow> IntsWithNoRemoteInt d \<notin> set fs"
proof -
  assume v: "validate_model M = Inl (ValidationFailed fs)"
  then obtain M1 c where m: "make_circuits_multidigraph M True True = Inr (M1, c)"
    using make_circuits_exception [of M True True fs]
    by (auto simp: validate_model_def split: sum.splits)
  then have "c = None"
    by (auto simp: make_circuits_multidigraph_def Let_def split: sum.splits if_splits)
  with v m show ?thesis
    by (auto simp: validate_model_def Let_def split: if_splits)
qed

text \<open>
  Claim C5 states that \<open>validate_model\<close> runs every check to completion, accumulates
  every failure (the interfaces without a counterpart among them) and raises one
  aggregate error at its end. The code calls circuit formation with
  \<open>return_exception=True\<close>: on a model with an interface without counterpart and with
  two nodes of the same name, the exception of circuit formation is raised at once
  and carries the unmatched interface only; the duplicate node name, which the
  validator reports for the same model without the interface, is not reported.
\<close>

theorem validate_model_raises_before_other_checks:
  "validate_model ex_orphan_model
     = Inl (InterfacesNotMatched [edge_names (mk_int ''A-to-B'' ''A'' ''B'' 10 100 ''1'')])
   \<and> validate_model ex_duplicate_model = Inl (ValidationFailed [DuplicateNodeNames 3 2])"
proof -
  let ?G = "make_weighted_network_graph_mdg ex_orphan_model True 0 False"
  have h: "has_edge ?G ''B'' ''A'' = False"
    by (simp add: has_edge_def edges_between_def ex_orphan_edges edge_names_def mk_int_def)
  have f1: "filter (\<lambda>e. has_edge ?G (e_dst e) (e_src e)) (g_edges ?G) = []"
    by (simp add: ex_orphan_edges h edge_names_def mk_int_def)
  have f2: "filter (\<lambda>e. \<not> has_edge ?G (e_dst e) (e_src e)) (g_edges ?G)
            = [edge_names (mk_int ''A-to-B'' ''A'' ''B'' 10 100 ''1'')]"
    using h by (simp add: ex_orphan_edges edge_names_def mk_int_def)
  have m: "make_circuits_multidigraph ex_orphan_model True True
           = Inl (InterfacesNotMatched [edge_names (mk_int ''A-to-B'' ''A'' ''B'' 10 100 ''1'')])"
    by (simp add: make_circuits_multidigraph_def Let_def f1 f2)
  have a: "validate_model ex_orphan_model
     = Inl (InterfacesNotMatched [edge_names (mk_int ''A-to-B'' ''A'' ''B'' 10 100 ''1'')])"
    by (simp add: validate_model_def m)
  have e: "g_edges (make_weighted_network_graph_mdg ex_duplicate_model True 0 False) = []"
    by (simp add: g_edges_make_graph ex_duplicate_model_def)
  have m2: "make_circuits_multidigraph ex_duplicate_model True True
            = Inr (ex_duplicate_model\<lparr>in_ckt := [], circuit_objects := []\<rparr>, None)"
    by (simp add: make_circuits_multidigraph_def Let_def e)
  have b: "validate_model ex_duplicate_model = Inl (ValidationFailed [DuplicateNodeNames 3 2])"
    unfolding validate_model_def m2
    by (simp add: Let_def int_res_bw_too_high_def int_res_bw_sum_error_def
        unique_interface_per_node_def srlg_errors_def ex_duplicate_model_def ex_orphan_model_def
        mk_node_def)
  from a b show ?thesis by (rule conjI)
qed

section \<open>Properties of the simulation driver\<close>

subsection \<open>The placer changes only the counters of the interfaces\<close>

lemma reset_interface_reserved [simp]:
  "reset_interface (i\<lparr>reserved_bandwidth := x\<rparr>) = reset_interface i"
  by (simp add: reset_interface_def)

lemma reset_interface_traffic [simp]:
  "reset_interface (i\<lparr>traffic := x\<rparr>) = reset_interface i"
  by (simp add: reset_interface_def)

lemma consume_reset:
  "map reset_interface (consume_reserved_bandwidth refs bw ints) = map reset_interface ints"
proof (induction refs arbitrary: ints)
  case Nil
  then show ?case by (simp add: consume_reserved_bandwidth_def)
next
  case (Cons r refs)
  have "map reset_interface (add_reserved_bandwidth r bw ints) = map reset_interface ints"
    by (simp add: add_reserved_bandwidth_def)
  with Cons [of "add_reserved_bandwidth r bw ints"] show ?case
    by (simp add: consume_reserved_bandwidth_def)
qed

lemma lsp_static_updates [simp]:
  "lsp_static (l\<lparr>lsp_reserved_bandwidth := b\<rparr>) = lsp_static l"
  "lsp_static (l\<lparr>setup_bandwidth := s\<rparr>) = lsp_static l"
  "lsp_static (l\<lparr>path := p\<rparr>) = lsp_static l"
  by (simp_all add: lsp_static_def)

lemma lsp_static_results [simp]:
  "lsp_static (mark_unrouted l) = lsp_static l"
  "lsp_static (add_lsp_path_data l p) = lsp_static l"
  by (simp_all add: mark_unrouted_def add_lsp_path_data_def)

lemma determine_lsp_state_placement:
  "determine_lsp_state nx draws t M k l =
     map_sum id (placed (lsp_bandwidth l t) M k l)
       (placement nx draws M k (source_node_object l) (dest_node_object l) (lsp_bandwidth l t))"
proof (cases "nx (make_weighted_network_graph_mdg M False (lsp_bandwidth l t) True)
                (source_node_object l) (dest_node_object l)")
  case NetworkXNoPath
  then show ?thesis
    by (simp add: determine_lsp_state_def placement_def placed_def Let_def)
next
  case NodeNotFound
  then show ?thesis
    by (simp add: determine_lsp_state_def placement_def placed_def Let_def)
next
  case (NxPaths ps)
  let ?G = "make_weighted_network_graph_mdg M False (lsp_bandwidth l t) True"
  show ?thesis
  proof (cases "get_all_paths_mdg ?G ps")
    case (Inl e)
    with NxPaths show ?thesis
      by (simp add: determine_lsp_state_def placement_def placed_def Let_def)
  next
    case (Inr all_paths)
    note a = this
    show ?thesis
    proof (cases "candidate_path_info_w_reservable_bw (lsp_bandwidth l t)
                    (normalize_multidigraph_paths all_paths)")
      case (Inl e)
      with NxPaths a show ?thesis
        by (simp add: determine_lsp_state_def placement_def placed_def Let_def)
    next
      case (Inr cands)
      with NxPaths a show ?thesis
        by (simp add: determine_lsp_state_def placement_def placed_def Let_def split_beta)
    qed
  qed
qed


lemma placed_shape:
  assumes "placed bw M k l d = (M', k', l')"
  shows "M' = M\<lparr>interface_objects := interface_objects M'\<rparr>
         \<and> map reset_interface (interface_objects M') = map reset_interface (interface_objects M)
         \<and> lsp_static l' = lsp_static l"
proof (cases d)
  case None
  with assms show ?thesis by (auto simp: placed_def)
next
  case (Some a)
  with assms show ?thesis by (cases a) (auto simp: placed_def consume_reset)
qed

lemma determine_lsp_state_shape:
  assumes "determine_lsp_state nx draws t M k l = Inr (M', k', l')"
  shows "M' = M\<lparr>interface_objects := interface_objects M'\<rparr>
         \<and> map reset_interface (interface_objects M') = map reset_interface (interface_objects M)
         \<and> lsp_static l' = lsp_static l"
proof -
  from assms obtain d where "placed (lsp_bandwidth l t) M k l d = (M', k', l')"
    unfolding determine_lsp_state_placement
    by (cases "placement nx draws M k (source_node_object l) (dest_node_object l) (lsp_bandwidth l t)")
      auto
  then show ?thesis by (rule placed_shape)
qed

lemma determine_lsp_state_info_shape:
  assumes "determine_lsp_state_info nx draws t M k ls = Inr (M', k', ls')"
  shows "M' = M\<lparr>interface_objects := interface_objects M'\<rparr>
         \<and> map reset_interface (interface_objects M') = map reset_interface (interface_objects M)
         \<and> map lsp_static ls' = map lsp_static ls"
  using assms
proof (induction ls arbitrary: M k M' k' ls')
  case Nil
  then show ?case by simp
next
  case (Cons l ls)
  from Cons.prems obtain M1 k1 l1 where
    s: "determine_lsp_state nx draws t M k l = Inr (M1, k1, l1)"
    by (auto split: sum.splits)
  with Cons.prems obtain ls1 where
    r: "determine_lsp_state_info nx draws t M1 k1 ls = Inr (M', k', ls1)" and e: "ls' = l1 # ls1"
    by (auto split: sum.splits)
  from determine_lsp_state_shape [OF s] have
    a1: "M1 = M\<lparr>interface_objects := interface_objects M1\<rparr>"
    and a2: "map reset_interface (interface_objects M1) = map reset_interface (interface_objects M)"
    and a3: "lsp_static l1 = lsp_static l" by simp_all
  from Cons.IH [OF r] have
    b1: "M' = M1\<lparr>interface_objects := interface_objects M'\<rparr>"
    and b2: "map reset_interface (interface_objects M') = map reset_interface (interface_objects M1)"
    and b3: "map lsp_static ls1 = map lsp_static ls" by simp_all
  have "M' = M\<lparr>interface_objects := interface_objects M'\<rparr>"
    by (subst b1, subst a1) simp
  with a2 b2 a3 b3 e show ?case by simp
qed

subsection \<open>The placer reads the declarative part of an LSP only\<close>

lemma lsp_static_eq:
  assumes "lsp_static l' = lsp_static l"
  shows "l' = l\<lparr>lsp_reserved_bandwidth := lsp_reserved_bandwidth l',
                 setup_bandwidth := setup_bandwidth l', path := path l'\<rparr>"
  using assms by (cases l, cases l') (simp add: lsp_static_def)

lemma determine_lsp_state_lsp:
  assumes "lsp_static l' = lsp_static l"
  shows "determine_lsp_state nx draws t M k l' = determine_lsp_state nx draws t M k l"
proof -
  note e = lsp_static_eq [OF assms]
  have f: "source_node_object l' = source_node_object l" "dest_node_object l' = dest_node_object l"
    "lsp_bandwidth l' t = lsp_bandwidth l t"
    by (subst e, simp add: lsp_bandwidth_def)+
  have q: "\<And>bw d. placed bw M k l' d = placed bw M k l d"
    by (subst e) (simp add: placed_def mark_unrouted_def add_lsp_path_data_def split: option.splits)
  show ?thesis
    by (cases "placement nx draws M k (source_node_object l) (dest_node_object l) (lsp_bandwidth l t)")
      (simp_all add: determine_lsp_state_placement f q)
qed

lemma frame_graph [simp]:
  "make_weighted_network_graph_mdg (frame L c s M) incl bw rsvp
   = make_weighted_network_graph_mdg M incl bw rsvp"
  by (simp add: frame_def make_weighted_network_graph_mdg_def considered_interfaces_def)

lemma frame_fields [simp]:
  "interface_objects (frame L c s M) = interface_objects M"
  "node_objects (frame L c s M) = node_objects M"
  "demand_objects (frame L c s M) = demand_objects M"
  "srlg_objects (frame L c s M) = srlg_objects M"
  "parallel_lsp_groups (frame L c s M) = parallel_lsp_groups M"
  "rsvp_lsp_objects (frame L c s M) = L"
  "frame L c s (M\<lparr>interface_objects := x\<rparr>) = (frame L c s M)\<lparr>interface_objects := x\<rparr>"
  by (simp_all add: frame_def)

lemma determine_lsp_state_frame:
  "determine_lsp_state nx draws t (frame L c s M) k l
   = map_sum id (framed L c s) (determine_lsp_state nx draws t M k l)"
proof -
  have p: "\<And>a b bw. placement nx draws (frame L c s M) k a b bw = placement nx draws M k a b bw"
    by (simp add: placement_def)
  have q: "\<And>bw d. placed bw (frame L c s M) k l d = framed L c s (placed bw M k l d)"
    by (simp add: placed_def framed_def split: option.splits)
  show ?thesis
    by (cases "placement nx draws M k (source_node_object l) (dest_node_object l) (lsp_bandwidth l t)")
      (simp_all add: determine_lsp_state_placement p q)
qed

lemma determine_lsp_state_info_indep:
  assumes "map lsp_static ls' = map lsp_static ls"
  shows "determine_lsp_state_info nx draws t (frame L c s M) k ls'
   = map_sum id (framed L c s) (determine_lsp_state_info nx draws t M k ls)"
  using assms
proof (induction ls arbitrary: ls' M k)
  case Nil
  then show ?case by (simp add: framed_def)
next
  case (Cons l ls)
  then obtain l' ls1 where e: "ls' = l' # ls1" and h: "lsp_static l' = lsp_static l"
    and t: "map lsp_static ls1 = map lsp_static ls"
    by (cases ls') auto
  show ?case
  proof (cases "determine_lsp_state nx draws t M k l")
    case (Inl x)
    then show ?thesis
      unfolding e by (simp add: determine_lsp_state_lsp [OF h] determine_lsp_state_frame)
  next
    case (Inr r)
    obtain M1 k1 l1 where r: "r = (M1, k1, l1)" by (cases r)
    show ?thesis
    proof (cases "determine_lsp_state_info nx draws t M1 k1 ls")
      case (Inl x)
      with Inr r show ?thesis
        unfolding e
        by (simp add: determine_lsp_state_lsp [OF h] determine_lsp_state_frame framed_def
            Cons.IH [OF t])
    next
      case (Inr r2)
      obtain M2 k2 l2 where r2: "r2 = (M2, k2, l2)" by (cases r2)
      from Inr r r2 \<open>determine_lsp_state nx draws t M k l = Inr r\<close> show ?thesis
        unfolding e
        by (simp add: determine_lsp_state_lsp [OF h] determine_lsp_state_frame framed_def
            Cons.IH [OF t])
    qed
  qed
qed


subsection \<open>The groups of parallel LSPs\<close>

lemma route_lsp_groups_shape:
  assumes "route_lsp_groups nx draws dmds M k groups = Inr (M', k', outs)"
  shows "M' = M\<lparr>interface_objects := interface_objects M'\<rparr>
         \<and> map reset_interface (interface_objects M') = map reset_interface (interface_objects M)
         \<and> map fst outs = map fst groups
         \<and> list_all2 (\<lambda>gr out. map lsp_static (snd out) = map lsp_static (snd gr)) groups outs"
  using assms
proof (induction groups arbitrary: M k M' k' outs)
  case Nil
  then show ?case by simp
next
  case (Cons gr groups)
  obtain g ls where gr: "gr = (g, ls)" by (cases gr)
  from Cons.prems obtain M1 k1 ls1 where
    s: "determine_lsp_state_info nx draws (traffic_in_demand_group dmds g / of_nat (length ls)) M k ls
          = Inr (M1, k1, ls1)"
    unfolding gr by (auto split: sum.splits)
  with Cons.prems obtain outs1 where
    r: "route_lsp_groups nx draws dmds M1 k1 groups = Inr (M', k', outs1)"
    and e: "outs = (g, ls1) # outs1"
    unfolding gr by (auto split: sum.splits)
  from determine_lsp_state_info_shape [OF s] have
    a1: "M1 = M\<lparr>interface_objects := interface_objects M1\<rparr>"
    and a2: "map reset_interface (interface_objects M1) = map reset_interface (interface_objects M)"
    and a3: "map lsp_static ls1 = map lsp_static ls" by simp_all
  from Cons.IH [OF r] have
    b1: "M' = M1\<lparr>interface_objects := interface_objects M'\<rparr>"
    and b2: "map reset_interface (interface_objects M') = map reset_interface (interface_objects M1)"
    and b3: "map fst outs1 = map fst groups"
    and b4: "list_all2 (\<lambda>gr out. map lsp_static (snd out) = map lsp_static (snd gr)) groups outs1"
    by simp_all
  have "M' = M\<lparr>interface_objects := interface_objects M'\<rparr>"
    by (subst b1, subst a1) simp
  with a2 b2 a3 b3 b4 e gr show ?case by simp
qed

lemma route_lsp_groups_indep:
  assumes "list_all2 (\<lambda>gr' gr. fst gr' = fst gr \<and> map lsp_static (snd gr') = map lsp_static (snd gr))
             groups' groups"
  shows "route_lsp_groups nx draws dmds (frame L c s M) k groups'
         = map_sum id (framed L c s) (route_lsp_groups nx draws dmds M k groups)"
  using assms
proof (induction groups' groups arbitrary: M k rule: list_all2_induct)
  case Nil
  then show ?case by (simp add: framed_def)
next
  case (Cons gr' groups' gr groups)
  obtain g ls where gr: "gr = (g, ls)" by (cases gr)
  obtain g' ls' where gr': "gr' = (g', ls')" by (cases gr')
  from Cons.hyps(1) gr gr' have g: "g' = g" and st: "map lsp_static ls' = map lsp_static ls"
    by simp_all
  from st have len: "length ls' = length ls" by (rule map_eq_imp_length_eq)
  let ?t = "traffic_in_demand_group dmds g / of_nat (length ls)"
  note i = determine_lsp_state_info_indep [OF st, of nx draws ?t L c s M k]
  show ?case
  proof (cases "determine_lsp_state_info nx draws ?t M k ls")
    case (Inl x)
    then show ?thesis
      unfolding gr gr' g by (simp add: len i)
  next
    case (Inr r)
    obtain M1 k1 l1 where r: "r = (M1, k1, l1)" by (cases r)
    show ?thesis
    proof (cases "route_lsp_groups nx draws dmds M1 k1 groups")
      case (Inl x)
      with Inr r show ?thesis
        unfolding gr gr' g by (simp add: len i framed_def Cons.IH)
    next
      case (Inr r2)
      obtain M2 k2 o2 where r2: "r2 = (M2, k2, o2)" by (cases r2)
      from Inr r r2 \<open>determine_lsp_state_info nx draws ?t M k ls = Inr r\<close> show ?thesis
        unfolding gr gr' g by (simp add: len i framed_def Cons.IH)
    qed
  qed
qed

lemma lsp_group_key_static: "lsp_group_key (lsp_static l) = lsp_group_key l"
  by (simp add: lsp_group_key_def lsp_static_def)

lemma lsp_static_key: "lsp_static a = lsp_static b \<Longrightarrow> lsp_group_key a = lsp_group_key b"
  by (metis lsp_group_key_static)

lemma map_static_keys:
  "map lsp_static xs = map lsp_static ys \<Longrightarrow> map lsp_group_key xs = map lsp_group_key ys"
proof -
  assume "map lsp_static xs = map lsp_static ys"
  then have "map lsp_group_key (map lsp_static xs) = map lsp_group_key (map lsp_static ys)"
    by simp
  then show ?thesis by (simp add: comp_def lsp_group_key_static)
qed

lemma map_static_group:
  "map lsp_static xs = map lsp_static ys \<Longrightarrow>
   map lsp_static (lsp_group xs g) = map lsp_static (lsp_group ys g)"
proof (induction xs arbitrary: ys)
  case Nil
  then show ?case by (simp add: lsp_group_def)
next
  case (Cons x xs)
  then obtain y ys' where y: "ys = y # ys'" "lsp_static x = lsp_static y"
    "map lsp_static xs = map lsp_static ys'" by (cases ys) auto
  from Cons.IH [OF y(3)] lsp_static_key [OF y(2)] y show ?case
    by (simp add: lsp_group_def)
qed

lemma replace_group_static:
  "map lsp_static new = map lsp_static (lsp_group cur g) \<Longrightarrow>
   map lsp_static (replace_group g cur new) = map lsp_static cur"
proof (induction cur arbitrary: new)
  case Nil
  then show ?case by simp
next
  case (Cons l cur)
  show ?case
  proof (cases "lsp_group_key l = g")
    case False
    with Cons show ?thesis by (simp add: lsp_group_def)
  next
    case True
    with Cons.prems obtain n ns where n: "new = n # ns" "lsp_static n = lsp_static l"
      "map lsp_static ns = map lsp_static (lsp_group cur g)"
      by (cases new) (auto simp: lsp_group_def)
    with True Cons.IH [OF n(3)] show ?thesis by simp
  qed
qed

lemma replace_group_same:
  "map lsp_static new = map lsp_static (lsp_group cur g) \<Longrightarrow>
   lsp_group (replace_group g cur new) g = new"
proof (induction cur arbitrary: new)
  case Nil
  then show ?case by (simp add: lsp_group_def)
next
  case (Cons l cur)
  show ?case
  proof (cases "lsp_group_key l = g")
    case False
    with Cons.prems have "map lsp_static new = map lsp_static (lsp_group cur g)"
      by (simp add: lsp_group_def)
    from Cons.IH [OF this] False show ?thesis by (simp add: lsp_group_def)
  next
    case True
    with Cons.prems obtain n ns where n: "new = n # ns" "lsp_static n = lsp_static l"
      "map lsp_static ns = map lsp_static (lsp_group cur g)"
      by (cases new) (auto simp: lsp_group_def)
    from lsp_static_key [OF n(2)] True have "lsp_group_key n = g" by simp
    with True Cons.IH [OF n(3)] n(1) show ?thesis by (simp add: lsp_group_def)
  qed
qed

lemma replace_group_other:
  "map lsp_static new = map lsp_static (lsp_group cur g) \<Longrightarrow> g' \<noteq> g \<Longrightarrow>
   lsp_group (replace_group g cur new) g' = lsp_group cur g'"
proof (induction cur arbitrary: new)
  case Nil
  then show ?case by (simp add: lsp_group_def)
next
  case (Cons l cur)
  show ?case
  proof (cases "lsp_group_key l = g")
    case False
    with Cons.prems have "map lsp_static new = map lsp_static (lsp_group cur g)"
      by (simp add: lsp_group_def)
    from Cons.IH [OF this Cons.prems(2)] False show ?thesis by (simp add: lsp_group_def)
  next
    case True
    with Cons.prems obtain n ns where n: "new = n # ns" "lsp_static n = lsp_static l"
      "map lsp_static ns = map lsp_static (lsp_group cur g)"
      by (cases new) (auto simp: lsp_group_def)
    from lsp_static_key [OF n(2)] True have "lsp_group_key n = g" by simp
    with True Cons.IH [OF n(3) Cons.prems(2)] n(1) Cons.prems(2) show ?thesis
      by (simp add: lsp_group_def)
  qed
qed

lemma replace_groups_static:
  "outs_ok lsps outs \<Longrightarrow> map lsp_static cur = map lsp_static lsps \<Longrightarrow>
   map lsp_static (replace_groups cur outs) = map lsp_static lsps"
proof (induction outs arbitrary: cur)
  case Nil
  then show ?case by (simp add: replace_groups_def)
next
  case (Cons out outs)
  obtain g new where out: "out = (g, new)" by (cases out)
  from Cons.prems out have n: "map lsp_static new = map lsp_static (lsp_group lsps g)"
    and ok: "outs_ok lsps outs" by (simp_all add: outs_ok_def)
  from n map_static_group [OF Cons.prems(2), of g]
  have "map lsp_static new = map lsp_static (lsp_group cur g)" by simp
  from replace_group_static [OF this] Cons.prems(2)
  have "map lsp_static (replace_group g cur new) = map lsp_static lsps" by simp
  from Cons.IH [OF ok this] out show ?case by (simp add: replace_groups_def)
qed

lemma replace_groups_group:
  "outs_ok lsps outs \<Longrightarrow> distinct (map fst outs) \<Longrightarrow> map lsp_static cur = map lsp_static lsps \<Longrightarrow>
   lsp_group (replace_groups cur outs) g
     = (case map_of outs g of None \<Rightarrow> lsp_group cur g | Some new \<Rightarrow> new)"
proof (induction outs arbitrary: cur)
  case Nil
  then show ?case by (simp add: replace_groups_def)
next
  case (Cons out outs)
  obtain g1 new where out: "out = (g1, new)" by (cases out)
  from Cons.prems out have n: "map lsp_static new = map lsp_static (lsp_group lsps g1)"
    and ok: "outs_ok lsps outs" by (simp_all add: outs_ok_def)
  from Cons.prems(2) out have d: "distinct (map fst outs)" and nin: "g1 \<notin> fst ` set outs"
    by simp_all
  from n map_static_group [OF Cons.prems(3), of g1]
  have n': "map lsp_static new = map lsp_static (lsp_group cur g1)" by simp
  from replace_group_static [OF n'] Cons.prems(3)
  have st: "map lsp_static (replace_group g1 cur new) = map lsp_static lsps" by simp
  note ih = Cons.IH [OF ok d st]
  have r: "replace_groups cur (out # outs) = replace_groups (replace_group g1 cur new) outs"
    by (simp add: replace_groups_def out)
  show ?case
  proof (cases "g = g1")
    case True
    from nin have "map_of outs g1 = None" by (simp add: map_of_eq_None_iff)
    with ih True replace_group_same [OF n'] out r show ?thesis by simp
  next
    case False
    with ih replace_group_other [OF n' False] out r show ?thesis
      by (simp split: option.splits)
  qed
qed

lemma lsps_determined_by_groups:
  "map lsp_group_key xs = map lsp_group_key ys \<Longrightarrow> (\<forall>g. lsp_group xs g = lsp_group ys g) \<Longrightarrow>
   xs = ys"
proof (induction xs arbitrary: ys)
  case Nil
  then show ?case by simp
next
  case (Cons x xs)
  then obtain y ys' where y: "ys = y # ys'" "lsp_group_key x = lsp_group_key y"
    "map lsp_group_key xs = map lsp_group_key ys'" by (cases ys) auto
  from Cons.prems(2) y(1) have a: "\<And>g. lsp_group (x # xs) g = lsp_group (y # ys') g"
    by blast
  from a [of "lsp_group_key x"] y(2) have xy: "x = y"
    and "lsp_group xs (lsp_group_key x) = lsp_group ys' (lsp_group_key x)"
    by (simp_all add: lsp_group_def)
  have "\<forall>g. lsp_group xs g = lsp_group ys' g"
  proof
    fix g
    from a [of g] xy show "lsp_group xs g = lsp_group ys' g"
      by (cases "lsp_group_key y = g") (simp_all add: lsp_group_def)
  qed
  from Cons.IH [OF y(3) this] xy y(1) show ?case by simp
qed

lemma lsp_group_empty: "g \<notin> set (map lsp_group_key xs) \<Longrightarrow> lsp_group xs g = []"
  by (auto simp: lsp_group_def filter_empty_conv)

lemma replace_groups_indep:
  assumes st: "map lsp_static lsps' = map lsp_static lsps"
    and ok: "outs_ok lsps outs"
    and keys: "map fst outs = parallel_lsp_group_keys lsps"
  shows "replace_groups lsps' outs = replace_groups lsps outs"
proof (rule lsps_determined_by_groups)
  have ok': "outs_ok lsps' outs"
    using ok map_static_group [OF st] by (simp add: outs_ok_def)
  have a: "map lsp_static (replace_groups lsps' outs) = map lsp_static lsps'"
    using ok' by (rule replace_groups_static) simp
  have b: "map lsp_static (replace_groups lsps outs) = map lsp_static lsps"
    using ok by (rule replace_groups_static) simp
  from a b st show "map lsp_group_key (replace_groups lsps' outs) = map lsp_group_key (replace_groups lsps outs)"
    by (intro map_static_keys) simp
  have d: "distinct (map fst outs)" by (simp add: keys parallel_lsp_group_keys_def)
  show "\<forall>g. lsp_group (replace_groups lsps' outs) g = lsp_group (replace_groups lsps outs) g"
  proof
    fix g
    have l: "lsp_group (replace_groups lsps outs) g
             = (case map_of outs g of None \<Rightarrow> lsp_group lsps g | Some new \<Rightarrow> new)"
      using ok d by (rule replace_groups_group) simp
    have l': "lsp_group (replace_groups lsps' outs) g
             = (case map_of outs g of None \<Rightarrow> lsp_group lsps' g | Some new \<Rightarrow> new)"
      using ok' d by (rule replace_groups_group) simp
    show "lsp_group (replace_groups lsps' outs) g = lsp_group (replace_groups lsps outs) g"
    proof (cases "map_of outs g")
      case (Some new)
      with l l' show ?thesis by simp
    next
      case None
      then have "g \<notin> set (map fst outs)" by (simp add: map_of_eq_None_iff)
      then have g: "g \<notin> set (map lsp_group_key lsps)"
        by (simp add: keys parallel_lsp_group_keys_def)
      then have g': "g \<notin> set (map lsp_group_key lsps')"
        using map_static_keys [OF st] by simp
      from l l' None lsp_group_empty [OF g] lsp_group_empty [OF g'] show ?thesis by simp
    qed
  qed
qed


subsection \<open>Routing the LSPs\<close>

lemma outs_okI:
  "list_all2 (\<lambda>gr out. map lsp_static (snd out) = map lsp_static (snd gr))
     (map (\<lambda>g. (g, lsp_group lsps g)) ks) outs \<Longrightarrow>
   map fst outs = ks \<Longrightarrow> outs_ok lsps outs"
proof (induction ks arbitrary: outs)
  case Nil
  then show ?case by (simp add: outs_ok_def)
next
  case (Cons k ks)
  then obtain out outs' where o: "outs = out # outs'" by (cases outs) auto
  with Cons.prems have "fst out = k" "map fst outs' = ks"
    "map lsp_static (snd out) = map lsp_static (lsp_group lsps k)"
    "list_all2 (\<lambda>gr out. map lsp_static (snd out) = map lsp_static (snd gr))
       (map (\<lambda>g. (g, lsp_group lsps g)) ks) outs'"
    by simp_all
  with Cons.IH [of outs'] o show ?case by (simp add: outs_ok_def)
qed

lemma route_lsps_result:
  assumes "route_lsps nx draws X k = Inr (Y, k')"
  shows "\<exists>M' outs. route_lsp_groups nx draws (demand_objects X) X k
            (map (\<lambda>g. (g, lsp_group (rsvp_lsp_objects X) g))
               (parallel_lsp_group_keys (rsvp_lsp_objects X))) = Inr (M', k', outs)
          \<and> Y = M'\<lparr>rsvp_lsp_objects := replace_groups (rsvp_lsp_objects X) outs\<rparr>"
  using assms by (auto simp: route_lsps_def Let_def split: sum.splits)

lemma route_lsps_shape:
  assumes "route_lsps nx draws X k = Inr (Y, k')"
  shows "Y = X\<lparr>interface_objects := interface_objects Y, rsvp_lsp_objects := rsvp_lsp_objects Y\<rparr>
         \<and> map reset_interface (interface_objects Y) = map reset_interface (interface_objects X)
         \<and> map lsp_static (rsvp_lsp_objects Y) = map lsp_static (rsvp_lsp_objects X)"
proof -
  let ?lsps = "rsvp_lsp_objects X"
  let ?ks = "parallel_lsp_group_keys ?lsps"
  from route_lsps_result [OF assms] obtain M' outs where
    g: "route_lsp_groups nx draws (demand_objects X) X k (map (\<lambda>g. (g, lsp_group ?lsps g)) ?ks)
          = Inr (M', k', outs)"
    and Y: "Y = M'\<lparr>rsvp_lsp_objects := replace_groups ?lsps outs\<rparr>" by blast
  from route_lsp_groups_shape [OF g] have
    a1: "M' = X\<lparr>interface_objects := interface_objects M'\<rparr>"
    and a2: "map reset_interface (interface_objects M') = map reset_interface (interface_objects X)"
    and a3: "map fst outs = ?ks"
    and a4: "list_all2 (\<lambda>gr out. map lsp_static (snd out) = map lsp_static (snd gr))
               (map (\<lambda>g. (g, lsp_group ?lsps g)) ?ks) outs"
    by (simp_all add: comp_def)
  from outs_okI [OF a4 a3] have ok: "outs_ok ?lsps outs" .
  have st: "map lsp_static (replace_groups ?lsps outs) = map lsp_static ?lsps"
    using ok by (rule replace_groups_static) simp
  have "Y = X\<lparr>interface_objects := interface_objects Y, rsvp_lsp_objects := rsvp_lsp_objects Y\<rparr>"
    unfolding Y by (subst a1) simp
  moreover have "map reset_interface (interface_objects Y) = map reset_interface (interface_objects X)"
    using a2 Y by simp
  moreover have "map lsp_static (rsvp_lsp_objects Y) = map lsp_static ?lsps"
    using st Y by simp
  ultimately show ?thesis by blast
qed

lemma route_lsps_indep:
  assumes st: "map lsp_static L' = map lsp_static (rsvp_lsp_objects X)"
  shows "route_lsps nx draws (frame L' c s X) k = map_sum id (with_circuits c s) (route_lsps nx draws X k)"
proof -
  let ?lsps = "rsvp_lsp_objects X"
  let ?ks = "parallel_lsp_group_keys ?lsps"
  let ?groups = "map (\<lambda>g. (g, lsp_group ?lsps g)) ?ks"
  let ?groups' = "map (\<lambda>g. (g, lsp_group L' g)) ?ks"
  have ks: "parallel_lsp_group_keys L' = ?ks"
    using map_static_keys [OF st] by (simp add: parallel_lsp_group_keys_def)
  have rel: "list_all2 (\<lambda>gr' gr. fst gr' = fst gr \<and> map lsp_static (snd gr') = map lsp_static (snd gr))
               ?groups' ?groups"
    by (simp add: list_all2_map1 list_all2_map2 list_all2_same map_static_group [OF st])
  note gi = route_lsp_groups_indep [OF rel, of nx draws "demand_objects X" L' c s X k]
  have l: "route_lsps nx draws (frame L' c s X) k
           = (case route_lsp_groups nx draws (demand_objects X) (frame L' c s X) k ?groups' of
                Inl e \<Rightarrow> Inl e
              | Inr (M', k', outs) \<Rightarrow> Inr (M'\<lparr>rsvp_lsp_objects := replace_groups L' outs\<rparr>, k'))"
    by (simp add: route_lsps_def Let_def ks)
  have rl: "route_lsps nx draws X k
           = (case route_lsp_groups nx draws (demand_objects X) X k ?groups of
                Inl e \<Rightarrow> Inl e
              | Inr (M', k', outs) \<Rightarrow> Inr (M'\<lparr>rsvp_lsp_objects := replace_groups ?lsps outs\<rparr>, k'))"
    by (simp add: route_lsps_def Let_def)
  show ?thesis
  proof (cases "route_lsp_groups nx draws (demand_objects X) X k ?groups")
    case (Inl e)
    then show ?thesis unfolding l rl gi by simp
  next
    case (Inr r)
    obtain M' k' outs where r: "r = (M', k', outs)" by (cases r)
    from route_lsp_groups_shape [OF Inr [unfolded r]] have
      a3: "map fst outs = ?ks"
      and a4: "list_all2 (\<lambda>gr out. map lsp_static (snd out) = map lsp_static (snd gr)) ?groups outs"
      by (simp_all add: comp_def)
    from outs_okI [OF a4 a3] have ok: "outs_ok ?lsps outs" .
    have e: "replace_groups L' outs = replace_groups ?lsps outs"
      using st ok a3 by (rule replace_groups_indep)
    from Inr r show ?thesis unfolding l rl gi
      by (simp add: framed_def with_circuits_def e frame_def)
  qed
qed

subsection \<open>Routing the demands, the traffic and the validation\<close>

lemma route_demand_shape:
  "route_demand nx G lsps dmd = Inr dmd' \<Longrightarrow>
   dmd'\<lparr>d_path := DemandUnrouted\<rparr> = dmd\<lparr>d_path := DemandUnrouted\<rparr>"
  by (auto simp: route_demand_def Let_def split: if_splits nx_answer.splits sum.splits)

lemma route_demands_loop_shape:
  "route_demands_loop nx G lsps dmds = Inr dmds' \<Longrightarrow>
   map (\<lambda>d. d\<lparr>d_path := DemandUnrouted\<rparr>) dmds' = map (\<lambda>d. d\<lparr>d_path := DemandUnrouted\<rparr>) dmds"
proof (induction dmds arbitrary: dmds')
  case Nil
  then show ?case by simp
next
  case (Cons d dmds)
  from Cons.prems obtain d1 where a: "route_demand nx G lsps d = Inr d1"
    by (auto split: sum.splits)
  with Cons.prems obtain ds1 where b: "route_demands_loop nx G lsps dmds = Inr ds1"
    and e: "dmds' = d1 # ds1" by (auto split: sum.splits)
  from route_demand_shape [OF a] Cons.IH [OF b] e show ?case by simp
qed

lemma route_demands_marks:
  "route_demands nx (Y\<lparr>circuit_objects := c, in_ckt := s\<rparr>)
     (non_failed_interfaces_model (Y\<lparr>circuit_objects := c, in_ckt := s\<rparr>))
   = route_demands nx Y (non_failed_interfaces_model Y)"
  by (simp add: route_demands_def demand_graph_def non_failed_interfaces_model_def Let_def
      make_weighted_network_graph_mdg_def considered_interfaces_def)

lemma add_traffic_on_path_reset:
  "map reset_interface (add_traffic_on_path refs x ints) = map reset_interface ints"
proof (induction refs arbitrary: ints)
  case Nil
  then show ?case by (simp add: add_traffic_on_path_def)
next
  case (Cons r refs)
  have "map reset_interface (add_traffic r x ints) = map reset_interface ints"
    by (simp add: add_traffic_def)
  with Cons [of "add_traffic r x ints"] show ?case
    by (simp add: add_traffic_on_path_def)
qed

lemma foldl_reset:
  assumes "\<And>acc y. map reset_interface (f acc y) = map reset_interface acc"
  shows "map reset_interface (foldl f ints ys) = map reset_interface ints"
  by (induction ys arbitrary: ints) (simp_all add: assms)

lemma add_demand_traffic_reset:
  "map reset_interface (add_demand_traffic lsps dmd ints) = map reset_interface ints"
  unfolding add_demand_traffic_def Let_def
  by (rule foldl_reset) (rule add_traffic_on_path_reset)

lemma update_interface_utilization_reset:
  "map reset_interface (interface_objects (update_interface_utilization M))
   = map reset_interface (interface_objects M)"
proof -
  have "map reset_interface
          (foldl (\<lambda>acc dmd. add_demand_traffic (rsvp_lsp_objects M) dmd acc)
             (interface_objects M) (demand_objects M))
        = map reset_interface (interface_objects M)"
    by (rule foldl_reset) (rule add_demand_traffic_reset)
  then show ?thesis by (simp add: update_interface_utilization_def)
qed

lemma update_interface_utilization_marks:
  "update_interface_utilization (M\<lparr>circuit_objects := c, in_ckt := s\<rparr>)
   = (update_interface_utilization M)\<lparr>circuit_objects := c, in_ckt := s\<rparr>"
  by (simp add: update_interface_utilization_def)

lemma circuits_loop_marks:
  "circuits_loop (M\<lparr>circuit_objects := c, in_ckt := s\<rparr>) es m cs = circuits_loop M es m cs"
proof (induction es arbitrary: m cs)
  case Nil
  then show ?case by simp
next
  case (Cons e es)
  have g: "get_interface_object_from_nodes (M\<lparr>circuit_objects := c, in_ckt := s\<rparr>) a b i
           = get_interface_object_from_nodes M a b i" for a b i
    by (cases i) (simp_all add: get_interface_object_from_nodes_def)
  show ?case by (simp add: g Cons.IH split: option.splits)
qed

lemma make_circuits_marks:
  "make_circuits_multidigraph (M\<lparr>circuit_objects := c, in_ckt := s\<rparr>) True f
   = make_circuits_multidigraph M True f"
proof -
  let ?G = "make_weighted_network_graph_mdg M f 0 False"
  have g: "make_weighted_network_graph_mdg (M\<lparr>circuit_objects := c, in_ckt := s\<rparr>) f 0 False = ?G"
    by (simp add: make_weighted_network_graph_mdg_def considered_interfaces_def)
  show ?thesis
  proof (cases "circuits_loop M (filter (\<lambda>e. has_edge ?G (e_dst e) (e_src e)) (g_edges ?G)) [] []")
    case (Inl x)
    then show ?thesis
      by (simp add: make_circuits_multidigraph_def Let_def g circuits_loop_marks)
  next
    case (Inr r)
    then show ?thesis
      by (cases r) (simp add: make_circuits_multidigraph_def Let_def g circuits_loop_marks)
  qed
qed

lemma validate_model_marks:
  "validate_model (M\<lparr>circuit_objects := c, in_ckt := s\<rparr>) = validate_model M"
  by (simp add: validate_model_def make_circuits_marks)

lemma make_circuits_shape:
  "make_circuits_multidigraph M r f = Inr (M', d) \<Longrightarrow>
   M' = M\<lparr>circuit_objects := circuit_objects M', in_ckt := in_ckt M'\<rparr>"
  by (auto simp: make_circuits_multidigraph_def Let_def split: sum.splits if_splits)

lemma validate_model_shape:
  "validate_model M = Inr M' \<Longrightarrow>
   M' = M\<lparr>circuit_objects := circuit_objects M', in_ckt := in_ckt M'\<rparr>"
proof -
  assume a: "validate_model M = Inr M'"
  then obtain d where "make_circuits_multidigraph M True True = Inr (M', d)"
    by (auto simp: validate_model_def Let_def split: sum.splits if_splits)
  then show ?thesis by (rule make_circuits_shape)
qed


subsection \<open>Two runs of the simulation\<close>

lemma reset_interface_idem [simp]: "reset_interface (reset_interface i) = reset_interface i"
  by (simp add: reset_interface_def)

lemma map_reset_idem:
  "map reset_interface (map reset_interface xs) = map reset_interface xs"
  by simp

lemma map_static_unrouted:
  "map lsp_static (map (\<lambda>l. l\<lparr>path := LspUnrouted\<rparr>) ls) = map lsp_static ls"
  by (simp add: lsp_static_def)

lemma map_unrouted_idem:
  "map (\<lambda>d. d\<lparr>d_path := DemandUnrouted\<rparr>) (map (\<lambda>d. d\<lparr>d_path := DemandUnrouted\<rparr>) ds)
   = map (\<lambda>d. d\<lparr>d_path := DemandUnrouted\<rparr>) ds"
  by simp

lemma reset_simulation_lsps:
  "rsvp_lsp_objects (reset_simulation M) = map (\<lambda>l. l\<lparr>path := LspUnrouted\<rparr>) (rsvp_lsp_objects M)"
  by (simp add: reset_simulation_def)

lemma non_failed_interfaces_model_fields:
  "demand_objects (non_failed_interfaces_model M) = demand_objects M"
  "rsvp_lsp_objects (non_failed_interfaces_model M) = rsvp_lsp_objects M"
  by (simp_all add: non_failed_interfaces_model_def Let_def)

lemma reset_simulation_declared:
  assumes "declared M' = declared M"
  shows "reset_simulation M'
         = frame (map (\<lambda>l. l\<lparr>path := LspUnrouted\<rparr>) (rsvp_lsp_objects M'))
             (circuit_objects M') (in_ckt M') (reset_simulation M)"
  using assms
  by (cases M, cases M') (simp add: reset_simulation_def frame_def declared_def)

lemma update_simulation_frame:
  assumes st: "map lsp_static L = map lsp_static (rsvp_lsp_objects X)"
  shows "(case route_lsps nx draws (frame L c s X) k of
            Inl e \<Rightarrow> Inl (PythonError e)
          | Inr (self1, k') \<Rightarrow>
              (case route_demands nx self1 (non_failed_interfaces_model self1) of
                 Inl e \<Rightarrow> Inl (PythonError e)
               | Inr dmds \<Rightarrow>
                   (case validate_model
                           (update_interface_utilization (self1\<lparr>demand_objects := dmds\<rparr>)) of
                      Inl x \<Rightarrow> Inl (ModelError x)
                    | Inr self2 \<Rightarrow> Inr (self2, k'))))
         = (case route_lsps nx draws X k of
            Inl e \<Rightarrow> Inl (PythonError e)
          | Inr (self1, k') \<Rightarrow>
              (case route_demands nx self1 (non_failed_interfaces_model self1) of
                 Inl e \<Rightarrow> Inl (PythonError e)
               | Inr dmds \<Rightarrow>
                   (case validate_model
                           (update_interface_utilization (self1\<lparr>demand_objects := dmds\<rparr>)) of
                      Inl x \<Rightarrow> Inl (ModelError x)
                    | Inr self2 \<Rightarrow> Inr (self2, k'))))"
proof (cases "route_lsps nx draws X k")
  case (Inl e)
  then show ?thesis unfolding route_lsps_indep [OF st] by simp
next
  case (Inr r)
  obtain Y k' where r: "r = (Y, k')" by (cases r)
  let ?Y = "Y\<lparr>circuit_objects := c, in_ckt := s\<rparr>"
  have a: "route_lsps nx draws (frame L c s X) k = Inr (?Y, k')"
    unfolding route_lsps_indep [OF st] using Inr r by (simp add: with_circuits_def)
  have b: "route_demands nx ?Y (non_failed_interfaces_model ?Y)
           = route_demands nx Y (non_failed_interfaces_model Y)"
    by (rule route_demands_marks)
  have d: "validate_model (update_interface_utilization (?Y\<lparr>demand_objects := dmds\<rparr>))
           = validate_model (update_interface_utilization (Y\<lparr>demand_objects := dmds\<rparr>))" for dmds
  proof -
    have "?Y\<lparr>demand_objects := dmds\<rparr> = (Y\<lparr>demand_objects := dmds\<rparr>)\<lparr>circuit_objects := c, in_ckt := s\<rparr>"
      by simp
    then show ?thesis
      by (simp only: update_interface_utilization_marks validate_model_marks)
  qed
  show ?thesis unfolding a Inr r by (simp only: sum.case prod.case b d)
qed

lemma update_simulation_declared:
  assumes "declared M' = declared M"
  shows "update_simulation nx draws k M' = update_simulation nx draws k M"
proof -
  let ?L = "map (\<lambda>l. l\<lparr>path := LspUnrouted\<rparr>) (rsvp_lsp_objects M')"
  have "map lsp_static (rsvp_lsp_objects M') = map lsp_static (rsvp_lsp_objects M)"
    using assms by (simp add: declared_def)
  then have st: "map lsp_static ?L = map lsp_static (rsvp_lsp_objects (reset_simulation M))"
    by (simp only: map_static_unrouted reset_simulation_lsps)
  show ?thesis
    unfolding update_simulation_def reset_simulation_declared [OF assms]
    by (rule update_simulation_frame [OF st])
qed

lemma update_simulation_result:
  assumes "update_simulation nx draws k M = Inr (M1, k1)"
  shows "\<exists>Y dmds. route_lsps nx draws (reset_simulation M) k = Inr (Y, k1)
           \<and> route_demands nx Y (non_failed_interfaces_model Y) = Inr dmds
           \<and> validate_model (update_interface_utilization (Y\<lparr>demand_objects := dmds\<rparr>)) = Inr M1"
  using assms by (auto simp: update_simulation_def split: sum.splits)

lemma update_simulation_keeps_declared:
  assumes "update_simulation nx draws k M = Inr (M1, k1)"
  shows "declared M1 = declared M"
proof -
  let ?X = "reset_simulation M"
  let ?un = "\<lambda>d. d\<lparr>d_path := DemandUnrouted\<rparr>"
  from update_simulation_result [OF assms] obtain Y dmds where
    a: "route_lsps nx draws ?X k = Inr (Y, k1)"
    and b: "route_demands nx Y (non_failed_interfaces_model Y) = Inr dmds"
    and c: "validate_model (update_interface_utilization (Y\<lparr>demand_objects := dmds\<rparr>)) = Inr M1"
    by blast
  let ?U = "update_interface_utilization (Y\<lparr>demand_objects := dmds\<rparr>)"
  from route_lsps_shape [OF a] have
    y1: "Y = ?X\<lparr>interface_objects := interface_objects Y, rsvp_lsp_objects := rsvp_lsp_objects Y\<rparr>"
    and y2: "map reset_interface (interface_objects Y) = map reset_interface (interface_objects ?X)"
    and y3: "map lsp_static (rsvp_lsp_objects Y) = map lsp_static (rsvp_lsp_objects ?X)"
    by blast+
  have yn: "node_objects Y = node_objects M" by (subst y1) (simp add: reset_simulation_def)
  have ys: "srlg_objects Y = srlg_objects M" by (subst y1) (simp add: reset_simulation_def)
  have yd: "demand_objects Y = map ?un (demand_objects M)"
    by (subst y1) (simp add: reset_simulation_def)
  have yi: "map reset_interface (interface_objects Y) = map reset_interface (interface_objects M)"
    using y2 by (simp add: reset_simulation_def)
  have yl: "map lsp_static (rsvp_lsp_objects Y) = map lsp_static (rsvp_lsp_objects M)"
    using y3 by (simp only: reset_simulation_lsps map_static_unrouted)
  from b have "map ?un dmds = map ?un (demand_objects Y)"
    unfolding route_demands_def non_failed_interfaces_model_fields
    by (rule route_demands_loop_shape)
  then have dd: "map ?un dmds = map ?un (demand_objects M)"
    unfolding yd by (simp only: map_unrouted_idem)
  have ui: "map reset_interface (interface_objects ?U) = map reset_interface (interface_objects M)"
    unfolding update_interface_utilization_reset using yi by simp
  have un: "node_objects ?U = node_objects M" "srlg_objects ?U = srlg_objects M"
    "demand_objects ?U = dmds" "rsvp_lsp_objects ?U = rsvp_lsp_objects Y"
    using yn ys by (simp_all add: update_interface_utilization_def)
  from validate_model_shape [OF c] have
    m: "M1 = ?U\<lparr>circuit_objects := circuit_objects M1, in_ckt := in_ckt M1\<rparr>" .
  have "declared M1 = declared ?U"
    by (subst m) (simp add: declared_def)
  also have "\<dots> = declared M"
    unfolding declared_def un using ui dd yl by simp
  finally show ?thesis .
qed

text \<open>
  Claim C8. Two runs of \<open>update_simulation\<close> in succession give the same model state,
  up to the random tie-break of the LSP placer: when a run on a model \<open>M\<close> returns the
  model \<open>M1\<close>, a second run on \<open>M1\<close> that sees the same random draws returns \<open>M1\<close>
  again, and with any draws whatsoever it returns what a run on \<open>M\<close> returns with these
  draws. The second run resets the reserved bandwidth and the traffic of every
  interface, the path of every LSP and of every demand and the groups of parallel
  LSPs, so that nothing computed by the first run reaches it.
\<close>

theorem update_simulation_twice:
  assumes "update_simulation nx draws k M = Inr (M1, k1)"
  shows "update_simulation nx draws k M1 = Inr (M1, k1)
         \<and> (\<forall>draws' k'. update_simulation nx draws' k' M1 = update_simulation nx draws' k' M)"
proof -
  have d: "declared M1 = declared M"
    using assms by (rule update_simulation_keeps_declared)
  have e: "update_simulation nx draws' k' M1 = update_simulation nx draws' k' M" for draws' k'
    using d by (rule update_simulation_declared)
  from e [of draws k] assms have "update_simulation nx draws k M1 = Inr (M1, k1)" by simp
  with e show ?thesis by blast
qed

theorem update_simulation_twice_witness:
  "\<exists>M1. update_simulation nx_one_hop (\<lambda>_. 0) 0 ex_sim_model = Inr (M1, 0)
        \<and> update_simulation nx_one_hop (\<lambda>_. 0) 0 M1 = Inr (M1, 0)
        \<and> map traffic (interface_objects M1) = [60, 5 / 2, 0, 5 / 2]
        \<and> map reserved_bandwidth (interface_objects M1) = [60, 0, 0, 0]"
proof -
  have "map_sum id (\<lambda>r. (map traffic (interface_objects (fst r)),
                         map reserved_bandwidth (interface_objects (fst r)), snd r))
          (update_simulation nx_one_hop (\<lambda>_. 0) 0 ex_sim_model)
        = Inr ([60, 5 / 2, 0, 5 / 2], [60, 0, 0, 0], 0)"
    by code_simp
  then obtain M1 where u: "update_simulation nx_one_hop (\<lambda>_. 0) 0 ex_sim_model = Inr (M1, 0)"
    and t: "map traffic (interface_objects M1) = [60, 5 / 2, 0, 5 / 2]"
    and r: "map reserved_bandwidth (interface_objects M1) = [60, 0, 0, 0]"
    by (cases "update_simulation nx_one_hop (\<lambda>_. 0) 0 ex_sim_model") auto
  from update_simulation_twice [OF u] have v: "update_simulation nx_one_hop (\<lambda>_. 0) 0 M1 = Inr (M1, 0)"
    by (rule conjunct1)
  show ?thesis
    by (rule exI [of _ M1]) (intro conjI u v t r)
qed

end
